theory Spec2Isabelle
  imports Complex_Main "HOL-Library.Char_ord" "HOL-Library.List_Lexorder"
begin

section \<open>JavaScript values, strings and objects\<close>

text \<open>
  The program is \<^verbatim>\<open>assets/scripts/app.js\<close>. A JavaScript string is modelled as a
  \<^typ>\<open>string\<close> whose characters are the code units 0..255 (Latin-1); the no-break
  space is the character with code 160. A cell value is a string, an
  integral number, \<^verbatim>\<open>null\<close> or \<^verbatim>\<open>undefined\<close>. An object used as a dictionary
  (a row, \<^verbatim>\<open>headerMap\<close>, \<^verbatim>\<open>byContainer\<close>) is an association list of its own
  properties, in the order they were created. (JavaScript enumerates integer-like keys before
  all others; that reordering is not modelled: the statements below are about the values
  under the keys, and the rows written out in them have no integer-like key.) The members
  an object inherits from \<^verbatim>\<open>Object.prototype\<close> are modelled where a lookup with a
  computed key can reach them: in \<^verbatim>\<open>byContainer[cont]\<close> and in
  \<^verbatim>\<open>COLUMN_ALIASES[nk]\<close>. Every other lookup is by a key the object has as its own
  property or by a fixed name that is not inherited.
\<close>

datatype jsval = JUndefined | JNull | JStr string | JNum int

type_synonym row = "(string \<times> jsval) list"

subsection \<open>Characters\<close>

text \<open>\<^verbatim>\<open>String.prototype.toLowerCase\<close> on one code unit below 256.\<close>

definition lowerCode :: "nat \<Rightarrow> nat" where
  "lowerCode n =
     (if (65 \<le> n \<and> n \<le> 90) \<or> (192 \<le> n \<and> n \<le> 222 \<and> n \<noteq> 215) then n + 32 else n)"

text \<open>
  The canonicalisation a regular expression with the \<^verbatim>\<open>i\<close> flag applies to both the
  pattern character and the input character (upper-casing; a character whose upper case
  lies outside the modelled range is left as it is).
\<close>

definition upperCode :: "nat \<Rightarrow> nat" where
  "upperCode n =
     (if (97 \<le> n \<and> n \<le> 122) \<or> (224 \<le> n \<and> n \<le> 254 \<and> n \<noteq> 247) then n - 32 else n)"

definition toLowerChar :: "char \<Rightarrow> char" where
  "toLowerChar c = char_of (lowerCode (of_char c))"

definition eqIgnoreCase :: "char \<Rightarrow> char \<Rightarrow> bool" where
  "eqIgnoreCase p c = (upperCode (of_char p) = upperCode (of_char c))"

text \<open>White space as \<^verbatim>\<open>trim\<close> and the class \<^verbatim>\<open>\s\<close> see it.\<close>

definition isWhiteSpace :: "char \<Rightarrow> bool" where
  "isWhiteSpace c = ((of_char c :: nat) \<in> set [9, 10, 11, 12, 13, 32, 160])"

text \<open>The class \<^verbatim>\<open>\w\<close>, which is \<^verbatim>\<open>[A-Za-z0-9_]\<close>.\<close>

definition isWordChar :: "char \<Rightarrow> bool" where
  "isWordChar c = (let n = (of_char c :: nat) in
     (65 \<le> n \<and> n \<le> 90) \<or> (97 \<le> n \<and> n \<le> 122) \<or> (48 \<le> n \<and> n \<le> 57) \<or> n = 95)"

definition nbsp :: char where
  "nbsp = CHR 0xA0"

subsection \<open>Strings\<close>

definition toLowerCase :: "string \<Rightarrow> string" where
  "toLowerCase s = map toLowerChar s"

definition trim :: "string \<Rightarrow> string" where
  "trim s = rev (dropWhile isWhiteSpace (rev (dropWhile isWhiteSpace s)))"

fun startsWith :: "string \<Rightarrow> string \<Rightarrow> bool" where
  "startsWith s [] = True"
| "startsWith [] (p # ps) = False"
| "startsWith (c # cs) (p # ps) = (c = p \<and> startsWith cs ps)"

text \<open>A literal pattern matched at the start of the input under the \<^verbatim>\<open>i\<close> flag.\<close>

fun matchLit :: "string \<Rightarrow> string \<Rightarrow> bool" where
  "matchLit [] s = True"
| "matchLit (p # ps) [] = False"
| "matchLit (p # ps) (c # cs) = (eqIgnoreCase p c \<and> matchLit ps cs)"

text \<open>\<^verbatim>\<open>RegExp.prototype.test\<close> for an unanchored pattern: a match at some position.\<close>

fun searchAt :: "(string \<Rightarrow> bool) \<Rightarrow> string \<Rightarrow> bool" where
  "searchAt m [] = m []"
| "searchAt m (c # cs) = (m (c # cs) \<or> searchAt m cs)"

text \<open>\<^verbatim>\<open>String.prototype.includes\<close>.\<close>

definition strIncludes :: "string \<Rightarrow> string \<Rightarrow> bool" where
  "strIncludes s q = searchAt (\<lambda>t. startsWith t q) s"

text \<open>\<^verbatim>\<open>Array.prototype.join\<close> on strings.\<close>

fun joinStr :: "string \<Rightarrow> string list \<Rightarrow> string" where
  "joinStr sep [] = []"
| "joinStr sep [x] = x"
| "joinStr sep (x # y # ys) = x @ sep @ joinStr sep (y # ys)"

subsection \<open>Numbers to strings\<close>

text \<open>
  \<^verbatim>\<open>String(n)\<close> for an integral number \<open>n\<close> of magnitude below \<open>10\<^sup>2\<^sup>1\<close>: the decimal
  digits. (From \<open>10\<^sup>2\<^sup>1\<close> on JavaScript prints a number with an exponent; such numbers
  are outside the model, as are integers that no double holds.)
\<close>

definition digitChar :: "nat \<Rightarrow> char" where
  "digitChar d = char_of (48 + d)"

fun natToString :: "nat \<Rightarrow> string" where
  "natToString n = (if n < 10 then [digitChar n] else natToString (n div 10) @ [digitChar (n mod 10)])"

declare natToString.simps [simp del]

definition numToString :: "int \<Rightarrow> string" where
  "numToString i = (if i < 0 then CHR ''-'' # natToString (nat (- i)) else natToString (nat i))"

subsection \<open>Operators on values\<close>

text \<open>\<^verbatim>\<open>String(v)\<close>.\<close>

fun jsString :: "jsval \<Rightarrow> string" where
  "jsString JUndefined = ''undefined''"
| "jsString JNull = ''null''"
| "jsString (JStr s) = s"
| "jsString (JNum i) = numToString i"

text \<open>\<^verbatim>\<open>v ?? d\<close>.\<close>

fun coalesce :: "jsval \<Rightarrow> jsval \<Rightarrow> jsval" where
  "coalesce JUndefined d = d"
| "coalesce JNull d = d"
| "coalesce v d = v"

fun truthy :: "jsval \<Rightarrow> bool" where
  "truthy JUndefined = False"
| "truthy JNull = False"
| "truthy (JStr s) = (s \<noteq> [])"
| "truthy (JNum i) = (i \<noteq> 0)"

text \<open>\<^verbatim>\<open>v || d\<close>.\<close>

definition orElse :: "jsval \<Rightarrow> jsval \<Rightarrow> jsval" where
  "orElse v d = (if truthy v then v else d)"

text \<open>\<^verbatim>\<open>r[k]\<close> and \<^verbatim>\<open>r[k] = v\<close> on a row object.\<close>

definition getProp :: "row \<Rightarrow> string \<Rightarrow> jsval" where
  "getProp r k = (case map_of r k of None \<Rightarrow> JUndefined | Some v \<Rightarrow> v)"

fun setProp :: "('k \<times> 'v) list \<Rightarrow> 'k \<Rightarrow> 'v \<Rightarrow> ('k \<times> 'v) list" where
  "setProp [] k v = [(k, v)]"
| "setProp ((k', v') # r) k v = (if k' = k then (k, v) # r else (k', v') # setProp r k v)"

text \<open>
  The names of the members of \<^verbatim>\<open>Object.prototype\<close>. For an object that has no own
  property of that name, \<^verbatim>\<open>m[k]\<close> is the inherited member: a function, or for
  \<^verbatim>\<open>__proto__\<close> the prototype object itself, each of which is true in a condition.
\<close>

definition objectPrototypeKeys :: "string list" where
  "objectPrototypeKeys = [''constructor'', ''__defineGetter__'', ''__defineSetter__'',
     ''hasOwnProperty'', ''__lookupGetter__'', ''__lookupSetter__'', ''isPrototypeOf'',
     ''propertyIsEnumerable'', ''toString'', ''valueOf'', ''__proto__'', ''toLocaleString'']"

definition inherited :: "string \<Rightarrow> bool" where
  "inherited k \<longleftrightarrow> k \<in> set objectPrototypeKeys"

text \<open>\<^verbatim>\<open>Array.prototype.findIndex\<close>, with \<^const>\<open>None\<close> for \<^verbatim>\<open>-1\<close>.\<close>

fun findIndex :: "('a \<Rightarrow> bool) \<Rightarrow> 'a list \<Rightarrow> nat option" where
  "findIndex P [] = None"
| "findIndex P (x # xs) = (if P x then Some 0 else map_option Suc (findIndex P xs))"

section \<open>Status classification\<close>

text \<open>The regular expressions of the program, each as the search it performs.\<close>

definition reDone :: "string \<Rightarrow> bool" where
  "reDone s = searchAt (matchLit ''done'') s"

text \<open>\<^verbatim>\<open>/in\s*progress/i\<close>: the star is greedy, and the next pattern character is no white space.\<close>

definition inSpacesProgressAt :: "string \<Rightarrow> bool" where
  "inSpacesProgressAt t =
     (matchLit ''in'' t \<and> matchLit ''progress'' (dropWhile isWhiteSpace (drop 2 t)))"

definition reInSpacesProgress :: "string \<Rightarrow> bool" where
  "reInSpacesProgress s = searchAt inSpacesProgressAt s"

text \<open>\<^verbatim>\<open>/(in progress|inprogress)/i\<close>.\<close>

definition reInProgress :: "string \<Rightarrow> bool" where
  "reInProgress s = searchAt (\<lambda>t. matchLit ''in progress'' t \<or> matchLit ''inprogress'' t) s"

text \<open>\<^verbatim>\<open>/(not started|n\/a|na)/i\<close>.\<close>

definition reNotStarted :: "string \<Rightarrow> bool" where
  "reNotStarted s =
     searchAt (\<lambda>t. matchLit ''not started'' t \<or> matchLit ''n/a'' t \<or> matchLit ''na'' t) s"

text \<open>\<^verbatim>\<open>/^(n\/a|na|not started)$/i\<close>: the whole input is one of the alternatives.\<close>

definition matchWhole :: "string \<Rightarrow> string \<Rightarrow> bool" where
  "matchWhole p s = (matchLit p s \<and> length s = length p)"

definition reNotStartedWhole :: "string \<Rightarrow> bool" where
  "reNotStartedWhole s = (matchWhole ''n/a'' s \<or> matchWhole ''na'' s \<or> matchWhole ''not started'' s)"

definition isCompleted :: "jsval \<Rightarrow> bool" where
  "isCompleted remarks =
     (if remarks = JNull \<or> remarks = JUndefined then False else reDone (jsString remarks))"

definition classifyStatus :: "jsval \<Rightarrow> string" where
  "classifyStatus remarks =
     (let rem = toLowerCase (trim (jsString (coalesce remarks (JStr ''''))))
      in if reDone rem then ''Completed''
         else if reInSpacesProgress rem then ''In Progress''
         else if rem = [] \<or> reNotStartedWhole rem then ''Not Started''
         else ''Not Started'')"

text \<open>
  The predicate of \<^verbatim>\<open>allRows.filter\<close> in \<^verbatim>\<open>renderFilteredAndLive\<close>: the values of
  the three selects and the trimmed, lower-cased search text, then the row.
\<close>

definition statusKeeps :: "string \<Rightarrow> row \<Rightarrow> bool" where
  "statusKeeps fStatus r =
     (let rem = toLowerCase (jsString (coalesce (getProp r ''REMARKS'') (JStr '''')));
          isDone = reDone rem;
          isInProg = reInProgress rem;
          isNotStarted = (trim rem = [] \<or> reNotStarted rem)
      in if fStatus = ''Finished'' \<and> \<not> isDone then False
         else if fStatus = ''In Progress'' \<and> \<not> isInProg then False
         else if fStatus = ''Not Started'' \<and> \<not> isNotStarted then False
         else if fStatus = ''Remaining'' \<and> isDone then False
         else True)"

text \<open>\<^verbatim>\<open>Object.values(r).join(' ')\<close>: \<^verbatim>\<open>join\<close> writes nothing for null and undefined.\<close>

fun joinElem :: "jsval \<Rightarrow> string" where
  "joinElem JUndefined = []"
| "joinElem JNull = []"
| "joinElem v = jsString v"

definition rowFilter :: "string \<Rightarrow> string \<Rightarrow> string \<Rightarrow> string \<Rightarrow> row \<Rightarrow> bool" where
  "rowFilter fFactory fContainer fStatus q r =
     (if fFactory \<noteq> ''all'' \<and> jsString (coalesce (getProp r ''Factory'') (JStr '''')) \<noteq> fFactory
        then False
      else if fContainer \<noteq> ''all''
              \<and> jsString (coalesce (getProp r ''ContainerNum'') (JStr '''')) \<noteq> fContainer
        then False
      else if fStatus \<noteq> ''all'' \<and> \<not> statusKeeps fStatus r then False
      else if q \<noteq> [] \<and> \<not> strIncludes (toLowerCase (joinStr '' '' (map (joinElem \<circ> snd) r))) q
        then False
      else True)"

definition renderFiltered :: "string \<Rightarrow> string \<Rightarrow> string \<Rightarrow> string \<Rightarrow> row list \<Rightarrow> row list" where
  "renderFiltered fFactory fContainer fStatus q allRows =
     filter (rowFilter fFactory fContainer fStatus q) allRows"


text \<open>The properties the four classification rules of the specification speak of.\<close>

definition containsIgnoringCase :: "string \<Rightarrow> string \<Rightarrow> bool" where
  "containsIgnoringCase pat t = (\<exists>u w v. t = u @ w @ v \<and> list_all2 eqIgnoreCase pat w)"

definition containsInProgress :: "string \<Rightarrow> bool" where
  "containsInProgress t =
     (\<exists>u a ws b v. t = u @ a @ ws @ b @ v \<and> list_all2 eqIgnoreCase ''in'' a
        \<and> list_all isWhiteSpace ws \<and> list_all2 eqIgnoreCase ''progress'' b)"

section \<open>Header normalisation and column resolution\<close>

definition EXPECTED_COLS :: "string list" where
  "EXPECTED_COLS = [''NO'', ''ContainerNum'', ''BoxNum'', ''Container'', ''BoxName'',
     ''ItemCount'', ''Kits'', ''Factory'', ''REMARKS'']"

definition COLUMN_ALIASES :: "(string \<times> string) list" where
  "COLUMN_ALIASES = [(''basebox'', ''BoxNum''), (''box no'', ''BoxNum''), (''boxno'', ''BoxNum''),
     (''box number'', ''BoxNum''), (''box_number'', ''BoxNum''), (''remark'', ''REMARKS''),
     (''remarks'', ''REMARKS''), (''status'', ''REMARKS''), (''inspection status'', ''REMARKS'')]"

definition normalizeKey :: "string \<Rightarrow> string" where
  "normalizeKey str =
     toLowerCase (filter isWordChar (filter (\<lambda>c. c \<noteq> nbsp) (trim str)))"

text \<open>\<^verbatim>\<open>if (m[k])\<close> on a dictionary of strings: the entry, when there is one and it is not empty.\<close>

definition lookupTruthy :: "(string \<times> string) list \<Rightarrow> string \<Rightarrow> string option" where
  "lookupTruthy m k = (case map_of m k of None \<Rightarrow> None | Some v \<Rightarrow> if v = [] then None else Some v)"

text \<open>\<^verbatim>\<open>if (h) foundOriginal = h\<close> for the result of \<^verbatim>\<open>Array.prototype.find\<close>.\<close>

definition truthyFound :: "string option \<Rightarrow> string option" where
  "truthyFound h = (case h of None \<Rightarrow> None | Some v \<Rightarrow> if v = [] then None else Some v)"

text \<open>
  What \<^verbatim>\<open>canonicalColumnFor\<close> returns: \<^verbatim>\<open>null\<close>, a canonical column name, or the
  member of \<^verbatim>\<open>Object.prototype\<close> of the given name.
\<close>

datatype canonical = NoColumn | Column string | Member string

text \<open>
  \<^verbatim>\<open>COLUMN_ALIASES[k]\<close> as \<^verbatim>\<open>if (COLUMN_ALIASES[k]) return COLUMN_ALIASES[k]\<close> reads it:
  the alias when the table has the key (and the alias is not empty), else the inherited
  member when the key names one, else nothing.
\<close>

definition aliasFor :: "string \<Rightarrow> canonical" where
  "aliasFor k =
     (case map_of COLUMN_ALIASES k of
        Some a \<Rightarrow> if a = [] then NoColumn else Column a
      | None \<Rightarrow> if inherited k then Member k else NoColumn)"

definition canonicalColumnFor :: "string \<Rightarrow> canonical" where
  "canonicalColumnFor header =
     (let nk = normalizeKey header
      in if nk = [] then NoColumn
         else case find (\<lambda>c. normalizeKey c = nk) EXPECTED_COLS of
           Some c \<Rightarrow> Column c
         | None \<Rightarrow>
            (case aliasFor nk of
               NoColumn \<Rightarrow> if last nk = CHR ''s'' then aliasFor (butlast nk) else NoColumn
             | found \<Rightarrow> found))"

text \<open>
  \<^verbatim>\<open>headerKeys.forEach(h => headerMap[normalizeKey(h)] = h)\<close>. An assignment under the
  key \<^verbatim>\<open>__proto__\<close> reaches the setter every object inherits, which ignores a string: it
  adds no entry. The keys later looked up in \<^verbatim>\<open>headerMap\<close> are the keys of the nine
  columns and the keys of the alias table, none of them the name of an inherited member.
\<close>

definition buildHeaderMap :: "string list \<Rightarrow> (string \<times> string) list" where
  "buildHeaderMap headerKeys =
     foldl (\<lambda>m h. if normalizeKey h = ''__proto__'' then m else setProp m (normalizeKey h) h)
       [] headerKeys"

text \<open>
  The header \<^verbatim>\<open>foundOriginal\<close> that the body of \<^verbatim>\<open>EXPECTED_COLS.forEach\<close> in
  \<^verbatim>\<open>addWorkbook\<close> arrives at for one column, \<^const>\<open>None\<close> for \<^verbatim>\<open>null\<close>; the five steps
  in the order of the source.
\<close>

definition stepDirect :: "row \<Rightarrow> string \<Rightarrow> string option" where
  "stepDirect r col =
     (let headerMap = buildHeaderMap (map fst r)
      in case lookupTruthy headerMap (normalizeKey col) of
           Some h \<Rightarrow> Some h
         | None \<Rightarrow>
            (case find (\<lambda>(k, v). v = col) COLUMN_ALIASES of
               Some (aliasNorm, v) \<Rightarrow> lookupTruthy headerMap aliasNorm
             | None \<Rightarrow> None))"

definition stepAnyHeader :: "row \<Rightarrow> string \<Rightarrow> string option" where
  "stepAnyHeader r col =
     truthyFound (find (\<lambda>h. normalizeKey h = normalizeKey col) (map fst r))"

definition stepSubstring :: "row \<Rightarrow> string \<Rightarrow> string option" where
  "stepSubstring r col =
     truthyFound (find (\<lambda>h. let nh = normalizeKey h
                            in strIncludes nh (normalizeKey col) \<or> strIncludes (normalizeKey col) nh)
                   (map fst r))"

definition stepAliasScan :: "row \<Rightarrow> string \<Rightarrow> string option" where
  "stepAliasScan r col =
     (let headerMap = buildHeaderMap (map fst r)
      in case find (\<lambda>(ak, v). v = col \<and> lookupTruthy headerMap ak \<noteq> None) COLUMN_ALIASES of
           Some (ak, v) \<Rightarrow> lookupTruthy headerMap ak
         | None \<Rightarrow> None)"

definition orNext :: "string option \<Rightarrow> string option \<Rightarrow> string option" where
  "orNext found next = (case found of None \<Rightarrow> next | Some h \<Rightarrow> Some h)"

definition foundOriginal :: "row \<Rightarrow> string \<Rightarrow> string option" where
  "foundOriginal r col =
     orNext (orNext (orNext (stepDirect r col) (stepAnyHeader r col)) (stepSubstring r col))
       (stepAliasScan r col)"

text \<open>The callback of \<^verbatim>\<open>rowsRaw.map\<close> in \<^verbatim>\<open>addWorkbook\<close>: one raw row to one normalised row.\<close>

definition resolveColumns :: "row \<Rightarrow> row" where
  "resolveColumns r =
     foldl (\<lambda>nr col. setProp nr col
                       (case foundOriginal r col of None \<Rightarrow> JStr [] | Some h \<Rightarrow> getProp r h))
       [] EXPECTED_COLS"

text \<open>
  The loop that keeps the extras. A header \<^verbatim>\<open>__proto__\<close> is answered by
  \<^verbatim>\<open>canonicalColumnFor\<close> with the inherited member, so no assignment under that key is
  made here.
\<close>

definition keepExtras :: "row \<Rightarrow> row \<Rightarrow> row" where
  "keepExtras r nr0 =
     foldl (\<lambda>nr k. if canonicalColumnFor k = NoColumn then setProp nr k (getProp r k) else nr)
       nr0 (map fst r)"

definition normalizeRow :: "row \<Rightarrow> row" where
  "normalizeRow r = keepExtras r (resolveColumns r)"

definition addWorkbookRows :: "row list \<Rightarrow> row list" where
  "addWorkbookRows rowsRaw = map normalizeRow rowsRaw"


section \<open>Row identity and edits\<close>

definition keyProps :: "string list" where
  "keyProps = [''NO'', ''BoxNum'', ''ContainerNum'']"

text \<open>\<^verbatim>\<open>keyProps.map(k => r[k] ?? '').join('||')\<close>.\<close>

definition keyComponent :: "row \<Rightarrow> string \<Rightarrow> string" where
  "keyComponent r k = joinElem (coalesce (getProp r k) (JStr []))"

definition rowIdentifier :: "row \<Rightarrow> string" where
  "rowIdentifier r = joinStr ''||'' (map (keyComponent r) keyProps)"

definition fallbackMatch :: "row \<Rightarrow> row \<Rightarrow> bool" where
  "fallbackMatch r rr =
     (jsString (coalesce (getProp rr ''BoxNum'') (JStr []))
        = jsString (coalesce (getProp r ''BoxNum'') (JStr []))
      \<and> jsString (coalesce (getProp rr ''ContainerNum'') (JStr []))
        = jsString (coalesce (getProp r ''ContainerNum'') (JStr [])))"

definition findTarget :: "row \<Rightarrow> row list \<Rightarrow> nat option" where
  "findTarget r allRows =
     (case findIndex (\<lambda>rr. rowIdentifier rr = rowIdentifier r) allRows of
        Some idx \<Rightarrow> Some idx
      | None \<Rightarrow> findIndex (fallbackMatch r) allRows)"

text \<open>
  The \<^verbatim>\<open>input\<close> and \<^verbatim>\<open>change\<close> listeners of \<^verbatim>\<open>renderTable\<close>: the row \<^verbatim>\<open>r\<close> the
  cell was rendered from, the column, the text entered, and the rows of the active file.
\<close>

definition applyEdit :: "row \<Rightarrow> string \<Rightarrow> string \<Rightarrow> row list \<Rightarrow> row list" where
  "applyEdit r c newText allRows =
     (case findTarget r allRows of
        None \<Rightarrow> allRows
      | Some idx \<Rightarrow> allRows[idx := setProp (allRows ! idx) c (JStr newText)])"

text \<open>What the specification calls the key triple of a row, and rows without the separator character.\<close>

definition keyTriple :: "row \<Rightarrow> string list" where
  "keyTriple r = map (keyComponent r) keyProps"

definition barFree :: "row \<Rightarrow> bool" where
  "barFree r = list_all (\<lambda>k. CHR ''|'' \<notin> set (keyComponent r k)) keyProps"

section \<open>Percentages in double precision\<close>

text \<open>
  \<^verbatim>\<open>Math.round((finished / total) * 100)\<close> is evaluated in IEEE 754 double precision. A
  double that is not negative is a pair \<open>(m, e)\<close> of a significand and an exponent, with
  value \<open>m * 2 ^ e\<close>; each operation rounds its exact result to 53 significant bits, a tie
  to the even significand. The counts are far from the overflow and underflow thresholds.
\<close>

fun bitLength :: "nat \<Rightarrow> nat" where
  "bitLength n = (if n = 0 then 0 else Suc (bitLength (n div 2)))"

declare bitLength.simps [simp del]

text \<open>The quotient \<open>n / d\<close> of \<open>n \<ge> 0\<close> and \<open>d > 0\<close>, rounded to the nearest integer, a tie to the even one.\<close>

definition roundHalfEven :: "int \<Rightarrow> int \<Rightarrow> int" where
  "roundHalfEven n d =
     (let q = n div d; r = n mod d
      in if 2 * r < d then q else if d < 2 * r then q + 1 else if even q then q else q + 1)"

definition dblValue :: "int \<times> int \<Rightarrow> rat" where
  "dblValue x = of_int (fst x) * 2 powi (snd x)"

text \<open>The exponent of the leading bit of \<open>a / b\<close>, for \<open>a > 0\<close> and \<open>b > 0\<close>.\<close>

definition binExponent :: "nat \<Rightarrow> nat \<Rightarrow> int" where
  "binExponent a b =
     (let d = int (bitLength a) - int (bitLength b)
      in if (if 0 \<le> d then int b * 2 ^ nat d \<le> int a else int b \<le> int a * 2 ^ nat (- d))
         then d else d - 1)"

text \<open>\<^verbatim>\<open>a / b\<close> for counts \<open>a\<close> and \<open>b > 0\<close>.\<close>

definition dblDiv :: "nat \<Rightarrow> nat \<Rightarrow> int \<times> int" where
  "dblDiv a b =
     (if a = 0 then (0, 0)
      else let e = binExponent a b - 52
           in (if e \<le> 0 then roundHalfEven (int a * 2 ^ nat (- e)) (int b)
               else roundHalfEven (int a) (int b * 2 ^ nat e), e))"

text \<open>\<^verbatim>\<open>x * 100\<close> for a double \<open>x \<ge> 0\<close>.\<close>

definition dblTimes100 :: "int \<times> int \<Rightarrow> int \<times> int" where
  "dblTimes100 x =
     (let p = 100 * fst x; s = int (bitLength (nat p)) - 53
      in if s \<le> 0 then (p, snd x) else (roundHalfEven p (2 ^ nat s), snd x + s))"

text \<open>\<^verbatim>\<open>Math.round\<close>: the nearest integer, a tie going up; that is \<open>\<lfloor>x + 1/2\<rfloor>\<close>.\<close>

definition mathRound :: "int \<times> int \<Rightarrow> int" where
  "mathRound x =
     (let m = fst x; e = snd x
      in if 0 \<le> e then m * 2 ^ nat e else (2 * m + 2 ^ nat (- e)) div 2 ^ nat (1 - e))"

text \<open>\<^verbatim>\<open>total === 0 ? 0 : Math.round((finished / total) * 100)\<close>.\<close>

definition percent :: "nat \<Rightarrow> nat \<Rightarrow> int" where
  "percent fin tot = (if tot = 0 then 0 else mathRound (dblTimes100 (dblDiv fin tot)))"

section \<open>Analytics\<close>

record tally =
  total :: nat
  finished :: nat

text \<open>\<^verbatim>\<open>m[k].f++\<close> on a dictionary of tallies.\<close>

definition modifyProp :: "(string \<times> tally) list \<Rightarrow> string \<Rightarrow> (tally \<Rightarrow> tally) \<Rightarrow> (string \<times> tally) list" where
  "modifyProp m k f = map (\<lambda>(k', v). if k' = k then (k', f v) else (k', v)) m"

definition containerKey :: "row \<Rightarrow> string" where
  "containerKey r = jsString (coalesce (getProp r ''ContainerNum'') (JStr ''NA''))"

text \<open>The counts of one group, as the specification states them.\<close>

definition groupTotal :: "string \<Rightarrow> row list \<Rightarrow> nat" where
  "groupTotal k rows = length (filter (\<lambda>r. containerKey r = k) rows)"

definition groupFinished :: "string \<Rightarrow> row list \<Rightarrow> nat" where
  "groupFinished k rows =
     length (filter (\<lambda>r. containerKey r = k \<and> isCompleted (getProp r ''REMARKS'')) rows)"

text \<open>
  The body of \<^verbatim>\<open>rows.forEach\<close> in \<^verbatim>\<open>buildAnalytics\<close>. \<^verbatim>\<open>byContainer\<close> starts as
  \<^verbatim>\<open>{}\<close>: when \<^verbatim>\<open>cont\<close> is the name of an inherited member,
  \<^verbatim>\<open>!byContainer[cont]\<close> is false and no entry is made; the two increments then go to
  the inherited member (they store \<^verbatim>\<open>NaN\<close> under \<^verbatim>\<open>total\<close> and \<^verbatim>\<open>finished\<close> of
  that built-in object, a value that is false in a condition as a missing one is) and
  \<^verbatim>\<open>byContainer\<close> keeps its own entries as they are.
\<close>

definition tallyRow :: "(string \<times> tally) list \<Rightarrow> row \<Rightarrow> (string \<times> tally) list" where
  "tallyRow byContainer r =
     (let cont = containerKey r;
          b1 = (if map_of byContainer cont = None \<and> \<not> inherited cont
                then setProp byContainer cont \<lparr>total = 0, finished = 0\<rparr> else byContainer);
          b2 = modifyProp b1 cont (\<lambda>v. v\<lparr>total := total v + 1\<rparr>)
      in if isCompleted (getProp r ''REMARKS'')
         then modifyProp b2 cont (\<lambda>v. v\<lparr>finished := finished v + 1\<rparr>) else b2)"

text \<open>
  What \<^verbatim>\<open>byContainer\<close> holds after the rows \<open>rows\<close>: one entry for each group key that
  is not the name of an inherited member, with the counts of the group.
\<close>

definition groupKeys :: "row list \<Rightarrow> string set" where
  "groupKeys rows = {k \<in> containerKey ` set rows. \<not> inherited k}"

definition tallied :: "(string \<times> tally) list \<Rightarrow> row list \<Rightarrow> bool" where
  "tallied acc rows \<longleftrightarrow>
     distinct (map fst acc) \<and>
     (\<forall>k. map_of acc k =
        (if k \<in> groupKeys rows
         then Some \<lparr>total = groupTotal k rows, finished = groupFinished k rows\<rparr> else None))"

definition percentText :: "nat \<Rightarrow> nat \<Rightarrow> string" where
  "percentText fin tot = numToString (percent fin tot) @ ''%''"

definition analyticsRecord :: "string \<Rightarrow> nat \<Rightarrow> nat \<Rightarrow> row" where
  "analyticsRecord cont tot fin =
     [(''Container'', JStr cont), (''TotalBoxes'', JNum (int tot)), (''Finished'', JNum (int fin)),
      (''Remaining'', JNum (int tot - int fin)), (''CompletionPercent'', JStr (percentText fin tot))]"

text \<open>
  The body of \<^verbatim>\<open>Object.keys(byContainer).sort().forEach\<close>: the state is \<^verbatim>\<open>out\<close>,
  \<^verbatim>\<open>total\<close> and \<^verbatim>\<open>finished\<close>. Every key comes from \<^verbatim>\<open>byContainer\<close>, so the
  lookup finds its tally.
\<close>

definition emitGroup :: "(string \<times> tally) list \<Rightarrow> row list \<times> nat \<times> nat \<Rightarrow> string \<Rightarrow> row list \<times> nat \<times> nat" where
  "emitGroup byContainer st cont =
     (case st of (out, tot, fin) \<Rightarrow>
        (case map_of byContainer cont of
           None \<Rightarrow> st
         | Some v \<Rightarrow> (out @ [analyticsRecord cont (total v) (finished v)],
                       tot + total v, fin + finished v)))"

definition buildAnalytics :: "row list \<Rightarrow> row list" where
  "buildAnalytics rows =
     (let byContainer = foldl tallyRow [] rows;
          st = foldl (emitGroup byContainer) ([], 0, 0) (sort (map fst byContainer))
      in case st of (out, tot, fin) \<Rightarrow> out @ [analyticsRecord ''ALL'' tot fin])"

definition factoryOrder :: "string list" where
  "factoryOrder = [''F200'', ''F100'', ''AIO'']"

text \<open>\<^verbatim>\<open>[...new Set(xs)]\<close>: the first occurrence of each value, in order.\<close>

definition setValues :: "'a list \<Rightarrow> 'a list" where
  "setValues xs = foldl (\<lambda>acc x. if x \<in> set acc then acc else acc @ [x]) [] xs"

definition factories :: "row list \<Rightarrow> jsval list" where
  "factories rows = setValues (map (\<lambda>r. orElse (getProp r ''Factory'') (JStr ''UNKNOWN'')) rows)"

definition summaryRecord :: "string \<Rightarrow> nat \<Rightarrow> nat \<Rightarrow> row" where
  "summaryRecord fac tot fin =
     [(''Factory'', JStr fac), (''TotalBoxes'', JNum (int tot)), (''Completed'', JNum (int fin)),
      (''Remaining'', JNum (int tot - int fin)), (''CompletionPercent'', JStr (percentText fin tot))]"



text \<open>The body of \<^verbatim>\<open>factoryOrder.forEach\<close> in \<^verbatim>\<open>buildSummarySheet\<close>.\<close>

definition summaryStep :: "row list \<Rightarrow> row list \<times> nat \<times> nat \<Rightarrow> string \<Rightarrow> row list \<times> nat \<times> nat" where
  "summaryStep rows st fac =
     (case st of (summaryData, allTotal, allFinished) \<Rightarrow>
        (let filtered = filter (\<lambda>r. getProp r ''Factory'' = JStr fac) rows
         in if length filtered = 0 then st
            else let tot = length filtered;
                     fin = length (filter (\<lambda>r. isCompleted (getProp r ''REMARKS'')) filtered)
                 in (summaryData @ [summaryRecord fac tot fin], allTotal + tot, allFinished + fin)))"

definition buildSummarySheet :: "row list \<Rightarrow> row list" where
  "buildSummarySheet rows =
     (case foldl (summaryStep rows) ([], 0, 0) factoryOrder of
        (summaryData, allTotal, allFinished) \<Rightarrow>
          summaryData @ [summaryRecord ''ALL'' allTotal allFinished])"

text \<open>
  The sheet \<^verbatim>\<open>factories.forEach\<close> builds for one label: its name
  \<^verbatim>\<open>`Analytics_${fac}`.replace(/[^A-Za-z0-9_]/g, "")\<close> and its content.
\<close>

definition sheetName :: "jsval \<Rightarrow> string" where
  "sheetName fac = filter isWordChar (''Analytics_'' @ jsString fac)"

definition factorySheet :: "row list \<Rightarrow> jsval \<Rightarrow> string \<times> row list" where
  "factorySheet rows fac =
     (sheetName fac, buildAnalytics (filter (\<lambda>r. getProp r ''Factory'' = fac) rows))"

text \<open>
  The rows of the \<^verbatim>\<open>Data\<close> sheet. \<^verbatim>\<open>out\<close> never has an own property
  \<^verbatim>\<open>__proto__\<close>, and an assignment under that key adds none.
\<close>

definition dataRow :: "row \<Rightarrow> row" where
  "dataRow r =
     (let out = foldl (\<lambda>out c. setProp out c (coalesce (getProp r c) (JStr []))) [] EXPECTED_COLS
      in foldl (\<lambda>out k. if k \<in> set EXPECTED_COLS \<or> k = ''__proto__'' then out
                        else setProp out k (getProp r k))
           out (map fst r))"

text \<open>
  A workbook is the list of its sheets, each a name and its rows. The spreadsheet library
  is loaded by the page and is not part of the program's source; of its
  \<^verbatim>\<open>XLSX.utils.book_append_sheet(wb, ws, name)\<close> the model keeps the checks that a name
  can fail which is not empty and is made of word characters, as every name is that the
  program passes: the function throws when the workbook is full (65535 sheets), when the
  name is longer than 31 characters, and when the workbook already has a sheet of that
  name. An exception is the value \<^const>\<open>Inl\<close>.
\<close>

datatype exportError = TooManySheets | SheetNameTooLong string | SheetNameTaken string

type_synonym workbook = "(string \<times> row list) list"

definition book_append_sheet :: "workbook \<Rightarrow> row list \<Rightarrow> string \<Rightarrow> exportError + workbook" where
  "book_append_sheet wb ws name =
     (if 65535 \<le> length wb then Inl TooManySheets
      else if 31 < length name then Inl (SheetNameTooLong name)
      else if name \<in> fst ` set wb then Inl (SheetNameTaken name)
      else Inr (wb @ [(name, ws)]))"

text \<open>The next statement runs on the workbook unless an exception has been thrown.\<close>

definition andThen :: "exportError + workbook \<Rightarrow> (workbook \<Rightarrow> exportError + workbook) \<Rightarrow> exportError + workbook" where
  "andThen x f = (case x of Inl e \<Rightarrow> Inl e | Inr wb \<Rightarrow> f wb)"

text \<open>
  \<^verbatim>\<open>exportWorkbookWithAnalytics\<close>, from the rows of the file to the workbook that
  \<^verbatim>\<open>XLSX.writeFile\<close> receives. An exception of \<^verbatim>\<open>book_append_sheet\<close> leaves the loop
  over the labels and the function: no file is written.
\<close>

definition exportWorkbookWithAnalytics :: "row list \<Rightarrow> exportError + workbook" where
  "exportWorkbookWithAnalytics rows =
     andThen (andThen (andThen (book_append_sheet [] (map dataRow rows) ''Data'')
       (\<lambda>wb. book_append_sheet wb (buildAnalytics rows) ''Analytics''))
       (\<lambda>wb. foldl (\<lambda>x fac. andThen x (\<lambda>wb. book_append_sheet wb (snd (factorySheet rows fac))
                                                    (fst (factorySheet rows fac))))
                   (Inr wb) (factories rows)))
       (\<lambda>wb. book_append_sheet wb (buildSummarySheet rows) ''Summary'')"

section \<open>Evaluation rules and association lists\<close>

lemmas charEval = toLowerChar_def lowerCode_def eqIgnoreCase_def upperCode_def isWhiteSpace_def
  isWordChar_def nbsp_def char_of_eq_iff

lemma digitChar_eval:
  "digitChar 0 = CHR ''0''" "digitChar 1 = CHR ''1''" "digitChar 2 = CHR ''2''"
  "digitChar 3 = CHR ''3''" "digitChar 4 = CHR ''4''" "digitChar 5 = CHR ''5''"
  "digitChar 6 = CHR ''6''" "digitChar 7 = CHR ''7''" "digitChar 8 = CHR ''8''"
  "digitChar 9 = CHR ''9''" "digitChar (Suc 0) = CHR ''1''"
  by (simp_all add: digitChar_def char_of_eq_iff)

lemmas numEval = numToString_def natToString.simps digitChar_eval

lemma map_of_setProp: "map_of (setProp m k v) = (map_of m)(k \<mapsto> v)"
  by (induction m) (auto simp: fun_eq_iff)

lemma getProp_setProp: "getProp (setProp r c v) k = (if k = c then v else getProp r k)"
  by (simp add: getProp_def map_of_setProp)

section \<open>Properties of the status classification\<close>

lemma upper_lower: "n < 256 \<Longrightarrow> upperCode (lowerCode n mod 256) = upperCode n"
  by (auto simp: upperCode_def lowerCode_def)

lemma eqIgnoreCase_lower: "eqIgnoreCase p (toLowerChar c) = eqIgnoreCase p c"
  by (simp add: eqIgnoreCase_def toLowerChar_def upper_lower)

lemma isWhiteSpace_lower: "isWhiteSpace (toLowerChar c) = isWhiteSpace c"
proof -
  have "(of_char c :: nat) < 256" by simp
  then show ?thesis
    by (auto simp: isWhiteSpace_def toLowerChar_def lowerCode_def)
qed

lemma matchLit_iff:
  "matchLit p s \<longleftrightarrow> (\<exists>w v. s = w @ v \<and> list_all2 eqIgnoreCase p w)"
proof (induction p s rule: matchLit.induct)
  case (1 s)
  then show ?case by simp
next
  case (2 p ps)
  then show ?case by simp
next
  case (3 p ps c cs)
  show ?case
  proof
    assume "matchLit (p # ps) (c # cs)"
    then have a: "eqIgnoreCase p c" and "matchLit ps cs" by simp_all
    with 3 obtain w v where "cs = w @ v" "list_all2 eqIgnoreCase ps w" by auto
    with a have "c # cs = (c # w) @ v \<and> list_all2 eqIgnoreCase (p # ps) (c # w)" by simp
    then show "\<exists>w v. c # cs = w @ v \<and> list_all2 eqIgnoreCase (p # ps) w" by blast
  next
    assume "\<exists>w v. c # cs = w @ v \<and> list_all2 eqIgnoreCase (p # ps) w"
    then obtain w v where wv: "c # cs = w @ v" "list_all2 eqIgnoreCase (p # ps) w" by blast
    then obtain x w' where w: "w = x # w'" "eqIgnoreCase p x" "list_all2 eqIgnoreCase ps w'"
      by (auto simp: list_all2_Cons1)
    with wv have "c = x" "cs = w' @ v" by simp_all
    with w 3 show "matchLit (p # ps) (c # cs)" by auto
  qed
qed

lemma searchAt_iff: "searchAt m s \<longleftrightarrow> (\<exists>u v. s = u @ v \<and> m v)"
proof (induction s)
  case Nil
  then show ?case by simp
next
  case (Cons c cs)
  show ?case
  proof
    assume "searchAt m (c # cs)"
    then consider "m (c # cs)" | "searchAt m cs" by auto
    then show "\<exists>u v. c # cs = u @ v \<and> m v"
    proof cases
      case 1
      then have "c # cs = [] @ (c # cs) \<and> m (c # cs)" by simp
      then show ?thesis by blast
    next
      case 2
      with Cons obtain u v where "cs = u @ v" "m v" by auto
      then have "c # cs = (c # u) @ v \<and> m v" by simp
      then show ?thesis by blast
    qed
  next
    assume "\<exists>u v. c # cs = u @ v \<and> m v"
    then obtain u v where uv: "c # cs = u @ v" "m v" by blast
    show "searchAt m (c # cs)"
    proof (cases u)
      case Nil
      with uv have "m (c # cs)" by simp
      then show ?thesis by simp
    next
      case (Cons a u')
      with uv have "cs = u' @ v" by simp
      with uv Cons.IH show ?thesis by auto
    qed
  qed
qed

lemma matchLit_lower: "matchLit p (map toLowerChar s) = matchLit p s"
  by (induction p s rule: matchLit.induct) (simp_all add: eqIgnoreCase_lower)

lemma searchAt_lower:
  assumes "\<And>t. m (map toLowerChar t) = m t"
  shows "searchAt m (map toLowerChar s) = searchAt m s"
proof (induction s)
  case Nil
  show ?case using assms[of "[]"] by simp
next
  case (Cons c cs)
  show ?case using assms[of "c # cs"] Cons by simp
qed

lemma searchAt_dropWhile:
  assumes "\<not> m []" and "\<And>c t. isWhiteSpace c \<Longrightarrow> \<not> m (c # t)"
  shows "searchAt m (dropWhile isWhiteSpace s) = searchAt m s"
  using assms by (induction s) auto

lemma searchAt_snoc:
  assumes "\<And>t. m (t @ [c]) = m t"
  shows "searchAt m (s @ [c]) = searchAt m s"
proof (induction s)
  case Nil
  show ?case using assms[of "[]"] by simp
next
  case (Cons a s)
  show ?case using assms[of "a # s"] Cons by simp
qed

lemma searchAt_dropTrailing:
  assumes "\<And>c t. isWhiteSpace c \<Longrightarrow> m (t @ [c]) = m t"
  shows "searchAt m (rev (dropWhile isWhiteSpace (rev s))) = searchAt m s"
proof (induction s rule: rev_induct)
  case Nil
  show ?case by simp
next
  case (snoc x xs)
  show ?case
  proof (cases "isWhiteSpace x")
    case True
    then have "searchAt m (xs @ [x]) = searchAt m xs"
      using assms searchAt_snoc[of m x xs] by simp
    with True snoc show ?thesis by simp
  next
    case False
    then show ?thesis by simp
  qed
qed

lemma searchAt_trim:
  assumes "\<not> m []" and "\<And>c t. isWhiteSpace c \<Longrightarrow> \<not> m (c # t)"
    and "\<And>c t. isWhiteSpace c \<Longrightarrow> m (t @ [c]) = m t"
  shows "searchAt m (trim s) = searchAt m s"
  unfolding trim_def
  using searchAt_dropTrailing[of m "dropWhile isWhiteSpace s"] searchAt_dropWhile[of m s] assms
  by simp

lemma matchLit_snoc:
  "p \<noteq> [] \<Longrightarrow> \<not> eqIgnoreCase (last p) c \<Longrightarrow> matchLit p (t @ [c]) = matchLit p t"
proof (induction p t rule: matchLit.induct)
  case (1 s)
  then show ?case by simp
next
  case (2 p ps)
  then show ?case by (cases ps) auto
next
  case (3 p ps x xs)
  then show ?case by (cases ps) auto
qed

lemma ws_upper: "isWhiteSpace c \<Longrightarrow> upperCode (of_char c) \<in> {9, 10, 11, 12, 13, 32, 160}"
  by (auto simp: isWhiteSpace_def upperCode_def)

lemma ws_not_letter:
  "isWhiteSpace c \<Longrightarrow> upperCode (of_char p) \<in> {65..90} \<Longrightarrow> \<not> eqIgnoreCase p c"
  using ws_upper[of c] by (auto simp: eqIgnoreCase_def)

lemma reDone_trim: "reDone (trim s) = reDone s"
  unfolding reDone_def
proof (rule searchAt_trim)
  show "\<not> matchLit ''done'' []" by simp
next
  fix c t assume "isWhiteSpace c"
  then have "\<not> eqIgnoreCase CHR ''d'' c" by (rule ws_not_letter) (simp add: upperCode_def)
  then show "\<not> matchLit ''done'' (c # t)" by simp
next
  fix c t assume "isWhiteSpace c"
  then have "\<not> eqIgnoreCase CHR ''e'' c" by (rule ws_not_letter) (simp add: upperCode_def)
  then show "matchLit ''done'' (t @ [c]) = matchLit ''done'' t"
    using matchLit_snoc[of "''done''" c t] by simp
qed

lemma reDone_lower: "reDone (toLowerCase s) = reDone s"
  unfolding reDone_def toLowerCase_def by (rule searchAt_lower) (rule matchLit_lower)

lemma dropWhile_lower:
  "dropWhile isWhiteSpace (map toLowerChar t) = map toLowerChar (dropWhile isWhiteSpace t)"
  by (induction t) (simp_all add: isWhiteSpace_lower)

lemma inSpacesProgressAt_lower: "inSpacesProgressAt (map toLowerChar t) = inSpacesProgressAt t"
  unfolding inSpacesProgressAt_def
  by (simp add: matchLit_lower drop_map dropWhile_lower)

lemma reInSpacesProgress_lower: "reInSpacesProgress (toLowerCase s) = reInSpacesProgress s"
  unfolding reInSpacesProgress_def toLowerCase_def
  by (rule searchAt_lower) (rule inSpacesProgressAt_lower)

lemma matchLit_length: "matchLit p t \<Longrightarrow> length p \<le> length t"
  by (induction p t rule: matchLit.induct) auto

lemma dropWhile_snoc_ws:
  "isWhiteSpace c \<Longrightarrow> dropWhile isWhiteSpace (xs @ [c]) =
     (if \<forall>x\<in>set xs. isWhiteSpace x then [] else dropWhile isWhiteSpace xs @ [c])"
  by (induction xs) auto

lemma inSpacesProgressAt_snoc:
  assumes ws: "isWhiteSpace c"
  shows "inSpacesProgressAt (t @ [c]) = inSpacesProgressAt t"
proof -
  have n: "\<not> eqIgnoreCase CHR ''n'' c" using ws by (rule ws_not_letter) (simp add: upperCode_def)
  have s: "\<not> eqIgnoreCase CHR ''s'' c" using ws by (rule ws_not_letter) (simp add: upperCode_def)
  have a: "matchLit ''in'' (t @ [c]) = matchLit ''in'' t"
    using matchLit_snoc[of "''in''" c t] n by simp
  show ?thesis
  proof (cases "matchLit ''in'' t")
    case False
    with a show ?thesis by (simp add: inSpacesProgressAt_def)
  next
    case True
    then have "2 \<le> length t" using matchLit_length[of "''in''" t] by simp
    then have d: "drop 2 (t @ [c]) = drop 2 t @ [c]" by simp
    have "matchLit ''progress'' (dropWhile isWhiteSpace (drop 2 t @ [c]))
          = matchLit ''progress'' (dropWhile isWhiteSpace (drop 2 t))"
    proof (cases "\<forall>x\<in>set (drop 2 t). isWhiteSpace x")
      case True
      then have e: "dropWhile isWhiteSpace (drop 2 t) = []" by simp
      from True ws have f: "dropWhile isWhiteSpace (drop 2 t @ [c]) = []"
        by (simp add: dropWhile_snoc_ws)
      show ?thesis by (simp only: e f)
    next
      case False
      with ws have "dropWhile isWhiteSpace (drop 2 t @ [c]) = dropWhile isWhiteSpace (drop 2 t) @ [c]"
        by (simp add: dropWhile_snoc_ws)
      then show ?thesis using matchLit_snoc[of "''progress''" c "dropWhile isWhiteSpace (drop 2 t)"] s
        by simp
    qed
    with a d show ?thesis by (simp add: inSpacesProgressAt_def)
  qed
qed

lemma reInSpacesProgress_trim: "reInSpacesProgress (trim s) = reInSpacesProgress s"
  unfolding reInSpacesProgress_def
proof (rule searchAt_trim)
  show "\<not> inSpacesProgressAt []" by (simp add: inSpacesProgressAt_def)
next
  fix c t assume "isWhiteSpace c"
  then have "\<not> eqIgnoreCase CHR ''i'' c" by (rule ws_not_letter) (simp add: upperCode_def)
  then show "\<not> inSpacesProgressAt (c # t)" by (simp add: inSpacesProgressAt_def)
next
  fix c t assume "isWhiteSpace c"
  then show "inSpacesProgressAt (t @ [c]) = inSpacesProgressAt t" by (rule inSpacesProgressAt_snoc)
qed

lemma searchAt_matchLit: "searchAt (matchLit p) s = containsIgnoringCase p s"
proof
  assume "searchAt (matchLit p) s"
  then obtain u v where uv: "s = u @ v" "matchLit p v" unfolding searchAt_iff by blast
  then obtain w v' where "v = w @ v'" "list_all2 eqIgnoreCase p w" unfolding matchLit_iff by blast
  with uv have "s = u @ w @ v' \<and> list_all2 eqIgnoreCase p w" by simp
  then show "containsIgnoringCase p s" unfolding containsIgnoringCase_def by blast
next
  assume "containsIgnoringCase p s"
  then obtain u w v where h: "s = u @ w @ v" "list_all2 eqIgnoreCase p w"
    unfolding containsIgnoringCase_def by blast
  then have "matchLit p (w @ v)" unfolding matchLit_iff by blast
  with h show "searchAt (matchLit p) s" unfolding searchAt_iff by blast
qed

lemma inSpacesProgressAt_iff:
  "inSpacesProgressAt t \<longleftrightarrow>
     (\<exists>a ws b v. t = a @ ws @ b @ v \<and> list_all2 eqIgnoreCase ''in'' a
        \<and> list_all isWhiteSpace ws \<and> list_all2 eqIgnoreCase ''progress'' b)"
proof
  assume h: "inSpacesProgressAt t"
  then obtain a v where a: "t = a @ v" "list_all2 eqIgnoreCase ''in'' a"
    unfolding inSpacesProgressAt_def matchLit_iff by blast
  then have la: "length a = 2" by (auto dest: list_all2_lengthD)
  with a have d: "drop 2 t = v" by simp
  from h d obtain b v' where b: "dropWhile isWhiteSpace v = b @ v'" "list_all2 eqIgnoreCase ''progress'' b"
    unfolding inSpacesProgressAt_def matchLit_iff by auto
  have "v = takeWhile isWhiteSpace v @ dropWhile isWhiteSpace v" by simp
  with a b have "t = a @ takeWhile isWhiteSpace v @ b @ v'" by simp
  moreover have "list_all isWhiteSpace (takeWhile isWhiteSpace v)"
    by (auto simp: list_all_iff dest: set_takeWhileD)
  ultimately show "\<exists>a ws b v. t = a @ ws @ b @ v \<and> list_all2 eqIgnoreCase ''in'' a
        \<and> list_all isWhiteSpace ws \<and> list_all2 eqIgnoreCase ''progress'' b"
    using a b by blast
next
  assume "\<exists>a ws b v. t = a @ ws @ b @ v \<and> list_all2 eqIgnoreCase ''in'' a
        \<and> list_all isWhiteSpace ws \<and> list_all2 eqIgnoreCase ''progress'' b"
  then obtain a ws b v where h: "t = a @ ws @ b @ v" "list_all2 eqIgnoreCase ''in'' a"
    "list_all isWhiteSpace ws" "list_all2 eqIgnoreCase ''progress'' b" by blast
  then have la: "length a = 2" by (auto dest: list_all2_lengthD)
  from h obtain x b' where b: "b = x # b'" "eqIgnoreCase CHR ''p'' x"
    by (auto simp: list_all2_Cons1)
  have "\<not> isWhiteSpace x"
  proof
    assume "isWhiteSpace x"
    then have "\<not> eqIgnoreCase CHR ''p'' x" by (rule ws_not_letter) (simp add: upperCode_def)
    with b show False by simp
  qed
  with h b have "dropWhile isWhiteSpace (ws @ b @ v) = b @ v"
    by (simp add: dropWhile_append3 list_all_iff)
  moreover from la h have "drop 2 t = ws @ b @ v" by simp
  moreover have "matchLit ''in'' t" unfolding matchLit_iff using h by blast
  moreover have "matchLit ''progress'' (b @ v)" unfolding matchLit_iff using h by blast
  ultimately show "inSpacesProgressAt t" by (simp add: inSpacesProgressAt_def)
qed

lemma reInSpacesProgress_iff: "reInSpacesProgress s = containsInProgress s"
proof
  assume "reInSpacesProgress s"
  then obtain u t where ut: "s = u @ t" "inSpacesProgressAt t"
    unfolding reInSpacesProgress_def searchAt_iff by blast
  then obtain a ws b v where "t = a @ ws @ b @ v" "list_all2 eqIgnoreCase ''in'' a"
      "list_all isWhiteSpace ws" "list_all2 eqIgnoreCase ''progress'' b"
    unfolding inSpacesProgressAt_iff by blast
  with ut have "s = u @ a @ ws @ b @ v \<and> list_all2 eqIgnoreCase ''in'' a
      \<and> list_all isWhiteSpace ws \<and> list_all2 eqIgnoreCase ''progress'' b" by simp
  then show "containsInProgress s" unfolding containsInProgress_def by blast
next
  assume "containsInProgress s"
  then obtain u a ws b v where h: "s = u @ a @ ws @ b @ v" "list_all2 eqIgnoreCase ''in'' a"
      "list_all isWhiteSpace ws" "list_all2 eqIgnoreCase ''progress'' b"
    unfolding containsInProgress_def by blast
  then have "inSpacesProgressAt (a @ ws @ b @ v)" unfolding inSpacesProgressAt_iff by blast
  with h show "reInSpacesProgress s" unfolding reInSpacesProgress_def searchAt_iff by blast
qed

lemma searchAt_disj: "searchAt (\<lambda>t. A t \<or> B t) s = (searchAt A s \<or> searchAt B s)"
  by (induction s) auto

lemma trim_empty_iff: "trim s = [] \<longleftrightarrow> list_all isWhiteSpace s"
proof -
  have "dropWhile isWhiteSpace s = [] \<longleftrightarrow> list_all isWhiteSpace s"
    by (simp add: list_all_iff)
  moreover have "rev (dropWhile isWhiteSpace (rev (dropWhile isWhiteSpace s))) = []
      \<longleftrightarrow> dropWhile isWhiteSpace s = []"
  proof
    assume a: "rev (dropWhile isWhiteSpace (rev (dropWhile isWhiteSpace s))) = []"
    show "dropWhile isWhiteSpace s = []"
    proof (rule ccontr)
      assume n: "dropWhile isWhiteSpace s \<noteq> []"
      then have "\<not> isWhiteSpace (hd (dropWhile isWhiteSpace s))" by (rule hd_dropWhile)
      moreover from n have "hd (dropWhile isWhiteSpace s) \<in> set (rev (dropWhile isWhiteSpace s))"
        by simp
      moreover from a have "\<forall>x\<in>set (rev (dropWhile isWhiteSpace s)). isWhiteSpace x"
        by (simp only: rev_is_Nil_conv dropWhile_eq_Nil_conv)
      ultimately show False by blast
    qed
  next
    assume e: "dropWhile isWhiteSpace s = []"
    show "rev (dropWhile isWhiteSpace (rev (dropWhile isWhiteSpace s))) = []"
      unfolding e by simp
  qed
  ultimately show ?thesis by (simp add: trim_def)
qed

lemma classifyStatus_cascade:
  "classifyStatus remarks =
     (if containsIgnoringCase ''done'' (jsString (coalesce remarks (JStr [])))
        then ''Completed''
      else if containsInProgress (jsString (coalesce remarks (JStr [])))
        then ''In Progress''
      else ''Not Started'')"
proof -
  let ?t = "jsString (coalesce remarks (JStr []))"
  have "reDone (toLowerCase (trim ?t)) = reDone ?t"
    by (simp only: reDone_lower reDone_trim)
  then have d: "reDone (toLowerCase (trim ?t)) = containsIgnoringCase ''done'' ?t"
    by (simp only: reDone_def searchAt_matchLit)
  have "reInSpacesProgress (toLowerCase (trim ?t)) = reInSpacesProgress ?t"
    by (simp only: reInSpacesProgress_lower reInSpacesProgress_trim)
  then have p: "reInSpacesProgress (toLowerCase (trim ?t)) = containsInProgress ?t"
    by (simp only: reInSpacesProgress_iff)
  show ?thesis
    unfolding classifyStatus_def Let_def d p by simp
qed

lemma statusKeeps_Finished:
  "statusKeeps ''Finished'' r = containsIgnoringCase ''done'' (jsString (coalesce (getProp r ''REMARKS'') (JStr [])))"
  by (simp add: statusKeeps_def Let_def reDone_lower) (simp add: reDone_def searchAt_matchLit)

lemma reInProgress_lower: "reInProgress (toLowerCase s) = reInProgress s"
  unfolding reInProgress_def toLowerCase_def
  by (rule searchAt_lower) (simp add: matchLit_lower)

lemma reNotStarted_lower: "reNotStarted (toLowerCase s) = reNotStarted s"
  unfolding reNotStarted_def toLowerCase_def
  by (rule searchAt_lower) (simp add: matchLit_lower)

lemma trim_lower_empty: "trim (toLowerCase s) = [] \<longleftrightarrow> list_all isWhiteSpace s"
  by (simp add: trim_empty_iff toLowerCase_def list_all_iff isWhiteSpace_lower)

lemma statusKeeps_InProgress:
  "statusKeeps ''In Progress'' r =
     (let t = jsString (coalesce (getProp r ''REMARKS'') (JStr []))
      in containsIgnoringCase ''in progress'' t \<or> containsIgnoringCase ''inprogress'' t)"
  by (simp add: statusKeeps_def Let_def reInProgress_lower)
     (simp add: reInProgress_def searchAt_disj searchAt_matchLit)

lemma statusKeeps_NotStarted:
  "statusKeeps ''Not Started'' r =
     (let t = jsString (coalesce (getProp r ''REMARKS'') (JStr []))
      in list_all isWhiteSpace t \<or> containsIgnoringCase ''not started'' t
         \<or> containsIgnoringCase ''n/a'' t \<or> containsIgnoringCase ''na'' t)"
  by (simp add: statusKeeps_def Let_def reNotStarted_lower trim_lower_empty)
     (simp add: reNotStarted_def searchAt_disj searchAt_matchLit)

lemma containsInProgress_of_literal:
  assumes "containsIgnoringCase ''in progress'' t \<or> containsIgnoringCase ''inprogress'' t"
  shows "containsInProgress t"
proof -
  have "reInProgress t" using assms
    by (simp add: reInProgress_def searchAt_disj searchAt_matchLit)
  then obtain u v where uv: "t = u @ v" "matchLit ''in progress'' v \<or> matchLit ''inprogress'' v"
    unfolding reInProgress_def searchAt_iff by blast
  have "inSpacesProgressAt v"
  proof -
    from uv(2) have "matchLit ''in'' v"
      by (cases v; cases "tl v") (auto)
    moreover have "matchLit ''progress'' (dropWhile isWhiteSpace (drop 2 v))"
    proof -
      from uv(2) show ?thesis
      proof
        assume m: "matchLit ''in progress'' v"
        then obtain a b c w where v: "v = a # b # c # w" "eqIgnoreCase CHR '' '' c" "matchLit ''progress'' w"
          by (cases v; cases "tl v"; cases "tl (tl v)") auto
        then have "isWhiteSpace c"
          by (auto simp: eqIgnoreCase_def isWhiteSpace_def upperCode_def split: if_splits)
        moreover from v obtain x w' where w: "w = x # w'" "eqIgnoreCase CHR ''p'' x" by (cases w) auto
        have "\<not> isWhiteSpace x"
          using w ws_not_letter[of x "CHR ''p''"] by (auto simp: upperCode_def)
        ultimately show ?thesis using v w by simp
      next
        assume m: "matchLit ''inprogress'' v"
        then obtain a b w where v: "v = a # b # w" "matchLit ''progress'' w"
          by (cases v; cases "tl v") auto
        then obtain x w' where w: "w = x # w'" "eqIgnoreCase CHR ''p'' x" by (cases w) auto
        have "\<not> isWhiteSpace x"
          using w ws_not_letter[of x "CHR ''p''"] by (auto simp: upperCode_def)
        then show ?thesis using v w by simp
      qed
    qed
    ultimately show ?thesis by (simp add: inSpacesProgressAt_def)
  qed
  with uv have "reInSpacesProgress t" unfolding reInSpacesProgress_def searchAt_iff by blast
  then show ?thesis by (simp add: reInSpacesProgress_iff)
qed

lemmas classifyEval = classifyStatus_def trim_def toLowerCase_def reDone_def reInSpacesProgress_def
  inSpacesProgressAt_def reNotStartedWhole_def matchWhole_def charEval

lemmas filterEval = rowFilter_def statusKeeps_def getProp_def trim_def toLowerCase_def reDone_def
  reInProgress_def reNotStarted_def charEval

lemma rowFilter_status_only:
  "rowFilter ''all'' ''all'' fStatus [] r = (fStatus = ''all'' \<or> statusKeeps fStatus r)"
  by (simp add: rowFilter_def)

text \<open>
  Claim C2. \<^const>\<open>classifyStatus\<close> applies its rules in order: a text that contains
  \<^verbatim>\<open>done\<close>, in any case, is \<^verbatim>\<open>Completed\<close>; otherwise a text that contains
  \<^verbatim>\<open>in\<close>, any white space and \<^verbatim>\<open>progress\<close>, in any case, is \<^verbatim>\<open>In Progress\<close>;
  every other text, the blank one and \<^verbatim>\<open>n/a\<close>, \<^verbatim>\<open>na\<close>, \<^verbatim>\<open>not started\<close> among them, is
  \<^verbatim>\<open>Not Started\<close>. A text with both an in-progress phrase and \<^verbatim>\<open>done\<close> is
  \<^verbatim>\<open>Completed\<close>, and so is the example of the specification.
\<close>

theorem classifyStatus_rules:
  "classifyStatus remarks =
     (if containsIgnoringCase ''done'' (jsString (coalesce remarks (JStr []))) then ''Completed''
      else if containsInProgress (jsString (coalesce remarks (JStr []))) then ''In Progress''
      else ''Not Started'')
   \<and> (containsInProgress t \<and> containsIgnoringCase ''done'' t
        \<longrightarrow> classifyStatus (JStr t) = ''Completed'')
   \<and> classifyStatus (JStr ''IN-PROGRESS-ish text with done later'') = ''Completed''
   \<and> classifyStatus (JStr []) = ''Not Started''
   \<and> classifyStatus (JStr ''in progress'') = ''In Progress''
   \<and> classifyStatus (JStr ''InProgress'') = ''In Progress''"
proof -
  have a: "classifyStatus (JStr ''IN-PROGRESS-ish text with done later'') = ''Completed''"
    by (simp add: classifyEval)
  have b: "classifyStatus (JStr []) = ''Not Started''"
    by (simp add: classifyEval)
  have c: "classifyStatus (JStr ''in progress'') = ''In Progress''"
    by (simp add: classifyEval)
  have d: "classifyStatus (JStr ''InProgress'') = ''In Progress''"
    by (simp add: classifyEval)
  have e: "containsInProgress t \<and> containsIgnoringCase ''done'' t
        \<longrightarrow> classifyStatus (JStr t) = ''Completed''"
    by (simp add: classifyStatus_cascade)
  show ?thesis using a b c d e classifyStatus_cascade[of remarks] by simp
qed

text \<open>The second conjunct at a text that holds both phrases.\<close>

theorem classifyStatus_rules_witness:
  "containsInProgress ''in progress, done'' \<and> containsIgnoringCase ''done'' ''in progress, done''
   \<and> classifyStatus (JStr ''in progress, done'') = ''Completed''"
proof -
  have a: "containsIgnoringCase ''done'' ''in progress, done''"
    unfolding searchAt_matchLit[symmetric] by (simp add: charEval)
  have b: "containsInProgress ''in progress, done''"
    unfolding reInSpacesProgress_iff[symmetric] reInSpacesProgress_def
    by (simp add: inSpacesProgressAt_def charEval)
  from classifyStatus_rules[of JNull "''in progress, done''"] a b show ?thesis by blast
qed

text \<open>
  Claim C6 as stated fails: the remark \<^verbatim>\<open>pending\<close> is classified \<^verbatim>\<open>Not Started\<close> and the
  filter \<^verbatim>\<open>Not Started\<close> drops its row; the remark \<^verbatim>\<open>in progress, done\<close> is classified
  \<^verbatim>\<open>Completed\<close> and the filter \<^verbatim>\<open>In Progress\<close> keeps its row.
\<close>

theorem statusFilter_differs_from_classifyStatus:
  "classifyStatus (getProp [(''REMARKS'', JStr ''pending'')] ''REMARKS'') = ''Not Started''
   \<and> \<not> rowFilter ''all'' ''all'' ''Not Started'' [] [(''REMARKS'', JStr ''pending'')]
   \<and> classifyStatus (getProp [(''REMARKS'', JStr ''in progress, done'')] ''REMARKS'') = ''Completed''
   \<and> rowFilter ''all'' ''all'' ''In Progress'' [] [(''REMARKS'', JStr ''in progress, done'')]"
proof -
  have a: "classifyStatus (getProp [(''REMARKS'', JStr ''pending'')] ''REMARKS'') = ''Not Started''"
    by (simp add: getProp_def classifyEval)
  have b: "\<not> rowFilter ''all'' ''all'' ''Not Started'' [] [(''REMARKS'', JStr ''pending'')]"
    by (simp add: filterEval)
  have c: "classifyStatus (getProp [(''REMARKS'', JStr ''in progress, done'')] ''REMARKS'') = ''Completed''"
    by (simp add: getProp_def classifyEval)
  have d: "rowFilter ''all'' ''all'' ''In Progress'' [] [(''REMARKS'', JStr ''in progress, done'')]"
    by (simp add: filterEval)
  show ?thesis using a b c d by simp
qed

text \<open>
  Claim C6, amended. With no other filter set, the filter \<^verbatim>\<open>Finished\<close> keeps a row if and
  only if \<^const>\<open>classifyStatus\<close> gives \<^verbatim>\<open>Completed\<close>. The filter \<^verbatim>\<open>In Progress\<close> keeps a
  row if and only if its remark contains \<^verbatim>\<open>in progress\<close> or \<^verbatim>\<open>inprogress\<close>, in any case;
  the filter \<^verbatim>\<open>Not Started\<close> keeps a row if and only if its remark is blank or contains
  \<^verbatim>\<open>not started\<close>, \<^verbatim>\<open>n/a\<close> or \<^verbatim>\<open>na\<close>. A row that the filter \<^verbatim>\<open>In Progress\<close> keeps
  and the filter \<^verbatim>\<open>Finished\<close> does not is classified \<^verbatim>\<open>In Progress\<close>.
\<close>

theorem statusFilter_characterised:
  "(rowFilter ''all'' ''all'' ''Finished'' [] r
      \<longleftrightarrow> classifyStatus (getProp r ''REMARKS'') = ''Completed'')
   \<and> (rowFilter ''all'' ''all'' ''In Progress'' [] r
      \<longleftrightarrow> containsIgnoringCase ''in progress'' (jsString (coalesce (getProp r ''REMARKS'') (JStr [])))
          \<or> containsIgnoringCase ''inprogress'' (jsString (coalesce (getProp r ''REMARKS'') (JStr []))))
   \<and> (rowFilter ''all'' ''all'' ''Not Started'' [] r
      \<longleftrightarrow> list_all isWhiteSpace (jsString (coalesce (getProp r ''REMARKS'') (JStr [])))
          \<or> containsIgnoringCase ''not started'' (jsString (coalesce (getProp r ''REMARKS'') (JStr [])))
          \<or> containsIgnoringCase ''n/a'' (jsString (coalesce (getProp r ''REMARKS'') (JStr [])))
          \<or> containsIgnoringCase ''na'' (jsString (coalesce (getProp r ''REMARKS'') (JStr []))))
   \<and> (rowFilter ''all'' ''all'' ''In Progress'' [] r
        \<and> \<not> rowFilter ''all'' ''all'' ''Finished'' [] r
      \<longrightarrow> classifyStatus (getProp r ''REMARKS'') = ''In Progress'')"
proof -
  let ?t = "jsString (coalesce (getProp r ''REMARKS'') (JStr []))"
  have f: "rowFilter ''all'' ''all'' ''Finished'' [] r = containsIgnoringCase ''done'' ?t"
    by (simp add: rowFilter_status_only statusKeeps_Finished)
  have p: "rowFilter ''all'' ''all'' ''In Progress'' [] r
      = (containsIgnoringCase ''in progress'' ?t \<or> containsIgnoringCase ''inprogress'' ?t)"
    by (simp add: rowFilter_status_only statusKeeps_InProgress Let_def)
  have n: "rowFilter ''all'' ''all'' ''Not Started'' [] r
      = (list_all isWhiteSpace ?t \<or> containsIgnoringCase ''not started'' ?t
          \<or> containsIgnoringCase ''n/a'' ?t \<or> containsIgnoringCase ''na'' ?t)"
    by (simp add: rowFilter_status_only statusKeeps_NotStarted Let_def)
  have c: "classifyStatus (getProp r ''REMARKS'') = ''Completed'' \<longleftrightarrow> containsIgnoringCase ''done'' ?t"
    by (simp add: classifyStatus_cascade)
  have i: "containsIgnoringCase ''in progress'' ?t \<or> containsIgnoringCase ''inprogress'' ?t
      \<Longrightarrow> \<not> containsIgnoringCase ''done'' ?t \<Longrightarrow> classifyStatus (getProp r ''REMARKS'') = ''In Progress''"
    using containsInProgress_of_literal[of ?t] by (simp add: classifyStatus_cascade)
  show ?thesis unfolding f p n c using i by blast
qed

text \<open>The last conjunct at the remark \<^verbatim>\<open>In Progress\<close>.\<close>

theorem statusFilter_characterised_witness:
  "rowFilter ''all'' ''all'' ''In Progress'' [] [(''REMARKS'', JStr ''In Progress'')]
   \<and> \<not> rowFilter ''all'' ''all'' ''Finished'' [] [(''REMARKS'', JStr ''In Progress'')]
   \<and> classifyStatus (getProp [(''REMARKS'', JStr ''In Progress'')] ''REMARKS'') = ''In Progress''"
proof -
  have a: "rowFilter ''all'' ''all'' ''In Progress'' [] [(''REMARKS'', JStr ''In Progress'')]"
    by (simp add: filterEval)
  have b: "\<not> rowFilter ''all'' ''all'' ''Finished'' [] [(''REMARKS'', JStr ''In Progress'')]"
    by (simp add: filterEval)
  from statusFilter_characterised[of "[(''REMARKS'', JStr ''In Progress'')]"] a b
  show ?thesis by blast
qed

section \<open>Properties of the row identity\<close>

lemma bar_split:
  "CHR ''|'' \<notin> set a \<Longrightarrow> CHR ''|'' \<notin> set a' \<Longrightarrow> a @ CHR ''|'' # x = a' @ CHR ''|'' # y
     \<Longrightarrow> a = a' \<and> x = y"
proof (induction a arbitrary: a')
  case Nil
  then show ?case by (cases a') auto
next
  case (Cons c a)
  then show ?case by (cases a') auto
qed

lemma joined_triple_inj:
  assumes "CHR ''|'' \<notin> set a" "CHR ''|'' \<notin> set b" "CHR ''|'' \<notin> set a'" "CHR ''|'' \<notin> set b'"
    and eq: "a @ ''||'' @ b @ ''||'' @ c = a' @ ''||'' @ b' @ ''||'' @ c'"
  shows "a = a' \<and> b = b' \<and> c = c'"
proof -
  from eq have "a @ CHR ''|'' # (CHR ''|'' # b @ ''||'' @ c) = a' @ CHR ''|'' # (CHR ''|'' # b' @ ''||'' @ c')"
    by simp
  with assms have 1: "a = a'" "CHR ''|'' # b @ ''||'' @ c = CHR ''|'' # b' @ ''||'' @ c'"
    using bar_split by blast+
  then have "b @ CHR ''|'' # (CHR ''|'' # c) = b' @ CHR ''|'' # (CHR ''|'' # c')" by simp
  with assms have "b = b'" "CHR ''|'' # c = CHR ''|'' # c'"
    using bar_split by blast+
  with 1 show ?thesis by simp
qed

lemma rowIdentifier_unfold:
  "rowIdentifier r = keyComponent r ''NO'' @ ''||'' @ keyComponent r ''BoxNum'' @ ''||''
     @ keyComponent r ''ContainerNum''"
  by (simp add: rowIdentifier_def keyProps_def)

lemma keyTriple_unfold:
  "keyTriple r = [keyComponent r ''NO'', keyComponent r ''BoxNum'', keyComponent r ''ContainerNum'']"
  by (simp add: keyTriple_def keyProps_def)

lemma barFree_unfold:
  "barFree r \<longleftrightarrow> CHR ''|'' \<notin> set (keyComponent r ''NO'') \<and> CHR ''|'' \<notin> set (keyComponent r ''BoxNum'')
     \<and> CHR ''|'' \<notin> set (keyComponent r ''ContainerNum'')"
  by (simp add: barFree_def keyProps_def)

lemma rowIdentifier_eq_iff:
  assumes "barFree r1" "barFree r2"
  shows "rowIdentifier r1 = rowIdentifier r2 \<longleftrightarrow> keyTriple r1 = keyTriple r2"
proof
  assume "rowIdentifier r1 = rowIdentifier r2"
  then show "keyTriple r1 = keyTriple r2"
    using assms joined_triple_inj[of "keyComponent r1 ''NO''" "keyComponent r1 ''BoxNum''"
        "keyComponent r2 ''NO''" "keyComponent r2 ''BoxNum''"
        "keyComponent r1 ''ContainerNum''" "keyComponent r2 ''ContainerNum''"]
    unfolding rowIdentifier_unfold keyTriple_unfold barFree_unfold by simp
next
  assume "keyTriple r1 = keyTriple r2"
  then show "rowIdentifier r1 = rowIdentifier r2"
    unfolding rowIdentifier_unfold keyTriple_unfold by simp
qed

lemma keyComponent_cases:
  "keyComponent r k = (case getProp r k of JUndefined \<Rightarrow> [] | JNull \<Rightarrow> [] | v \<Rightarrow> jsString v)"
  by (cases "getProp r k") (simp_all add: keyComponent_def)

text \<open>
  Claim C9 as stated fails: the separator is not kept out of the values. A row whose \<^verbatim>\<open>NO\<close> is
  \<^verbatim>\<open>|\<close> and a row whose \<^verbatim>\<open>BoxNum\<close> is \<^verbatim>\<open>|\<close> have different key triples and the same
  joined key, five bars.
\<close>

theorem rowIdentifier_collision:
  "rowIdentifier [(''NO'', JStr ''|'')] = rowIdentifier [(''BoxNum'', JStr ''|'')]
   \<and> keyTriple [(''NO'', JStr ''|'')] = [''|'', [], []]
   \<and> keyTriple [(''BoxNum'', JStr ''|'')] = [[], ''|'', []]"
  by (simp add: rowIdentifier_unfold keyTriple_unfold keyComponent_def getProp_def)

text \<open>
  Claim C9, amended. The key is the three components \<^verbatim>\<open>NO\<close>, \<^verbatim>\<open>BoxNum\<close>, \<^verbatim>\<open>ContainerNum\<close>
  as strings, a missing value as the empty string, joined by \<^verbatim>\<open>||\<close>. For two rows none of
  whose components contains the character \<^verbatim>\<open>|\<close>, the keys are equal if and only if the
  three components are pairwise equal.
\<close>

theorem rowIdentifier_injective_without_bar:
  "rowIdentifier r = keyComponent r ''NO'' @ ''||'' @ keyComponent r ''BoxNum'' @ ''||''
       @ keyComponent r ''ContainerNum''
   \<and> keyComponent r k = (case getProp r k of JUndefined \<Rightarrow> [] | JNull \<Rightarrow> [] | v \<Rightarrow> jsString v)
   \<and> (barFree r1 \<and> barFree r2
        \<longrightarrow> (rowIdentifier r1 = rowIdentifier r2 \<longleftrightarrow> keyTriple r1 = keyTriple r2))"
  using rowIdentifier_unfold[of r] keyComponent_cases[of r k] rowIdentifier_eq_iff[of r1 r2]
  by blast

text \<open>Two rows that differ in the types of their cells and agree in the key.\<close>

theorem rowIdentifier_injective_without_bar_witness:
  "barFree [(''NO'', JNum 3), (''BoxNum'', JStr ''7''), (''ContainerNum'', JStr ''2'')]
   \<and> barFree [(''NO'', JStr ''3''), (''BoxNum'', JStr ''7''), (''ContainerNum'', JNum 2), (''REMARKS'', JStr ''Done'')]
   \<and> rowIdentifier [(''NO'', JNum 3), (''BoxNum'', JStr ''7''), (''ContainerNum'', JStr ''2'')]
       = rowIdentifier [(''NO'', JStr ''3''), (''BoxNum'', JStr ''7''), (''ContainerNum'', JNum 2), (''REMARKS'', JStr ''Done'')]
   \<and> keyTriple [(''NO'', JNum 3), (''BoxNum'', JStr ''7''), (''ContainerNum'', JStr ''2'')]
       = keyTriple [(''NO'', JStr ''3''), (''BoxNum'', JStr ''7''), (''ContainerNum'', JNum 2), (''REMARKS'', JStr ''Done'')]"
proof -
  let ?a = "[(''NO'', JNum 3), (''BoxNum'', JStr ''7''), (''ContainerNum'', JStr ''2'')]"
  let ?b = "[(''NO'', JStr ''3''), (''BoxNum'', JStr ''7''), (''ContainerNum'', JNum 2), (''REMARKS'', JStr ''Done'')]"
  have n: "numToString 3 = ''3''" "numToString 2 = ''2''"
    by (simp_all add: numEval)
  have a: "barFree ?a" by (simp add: barFree_unfold keyComponent_def getProp_def n)
  have b: "barFree ?b" by (simp add: barFree_unfold keyComponent_def getProp_def n)
  have t: "keyTriple ?a = keyTriple ?b" by (simp add: keyTriple_unfold keyComponent_def getProp_def n)
  from rowIdentifier_injective_without_bar[of _ _ ?a ?b] a b t show ?thesis by blast
qed

section \<open>Properties of edits\<close>

lemma findIndex_Some_iff:
  "findIndex P xs = Some i \<longleftrightarrow> i < length xs \<and> P (xs ! i) \<and> (\<forall>j<i. \<not> P (xs ! j))"
proof (induction xs arbitrary: i)
  case Nil
  then show ?case by simp
next
  case (Cons x xs)
  show ?case
  proof (cases "P x")
    case True
    then show ?thesis by (cases i) auto
  next
    case False
    show ?thesis
    proof (cases i)
      case 0
      with False show ?thesis by auto
    next
      case (Suc n)
      have "(\<forall>j<Suc n. \<not> P ((x # xs) ! j)) \<longleftrightarrow> (\<forall>j<n. \<not> P (xs ! j))"
        using False by (auto simp: less_Suc_eq_0_disj)
      with False Suc Cons[of n] show ?thesis by auto
    qed
  qed
qed

lemma findIndex_None_iff: "findIndex P xs = None \<longleftrightarrow> (\<forall>x\<in>set xs. \<not> P x)"
  by (induction xs) auto

lemma findTarget_primary:
  assumes "i < length allRows" "rowIdentifier (allRows ! i) = rowIdentifier r"
    "\<forall>j<i. rowIdentifier (allRows ! j) \<noteq> rowIdentifier r"
  shows "findTarget r allRows = Some i"
proof -
  have "findIndex (\<lambda>rr. rowIdentifier rr = rowIdentifier r) allRows = Some i"
    using assms by (simp add: findIndex_Some_iff)
  then show ?thesis by (simp add: findTarget_def)
qed

lemma findTarget_fallback:
  assumes "\<forall>rr\<in>set allRows. rowIdentifier rr \<noteq> rowIdentifier r"
    "i < length allRows" "fallbackMatch r (allRows ! i)" "\<forall>j<i. \<not> fallbackMatch r (allRows ! j)"
  shows "findTarget r allRows = Some i"
proof -
  have "findIndex (\<lambda>rr. rowIdentifier rr = rowIdentifier r) allRows = None"
    using assms(1) by (simp add: findIndex_None_iff)
  moreover have "findIndex (fallbackMatch r) allRows = Some i"
    using assms by (simp add: findIndex_Some_iff)
  ultimately show ?thesis by (simp add: findTarget_def)
qed

lemma findTarget_none:
  assumes "\<forall>rr\<in>set allRows. rowIdentifier rr \<noteq> rowIdentifier r \<and> \<not> fallbackMatch r rr"
  shows "findTarget r allRows = None"
proof -
  have "findIndex (\<lambda>rr. rowIdentifier rr = rowIdentifier r) allRows = None"
    using assms by (simp add: findIndex_None_iff)
  moreover have "findIndex (fallbackMatch r) allRows = None"
    using assms by (simp add: findIndex_None_iff)
  ultimately show ?thesis by (simp add: findTarget_def)
qed

lemma fallbackMatch_pair:
  "fallbackMatch r rr \<longleftrightarrow> keyComponent rr ''BoxNum'' = keyComponent r ''BoxNum''
     \<and> keyComponent rr ''ContainerNum'' = keyComponent r ''ContainerNum''"
proof -
  have "\<And>v. jsString (coalesce v (JStr [])) = joinElem (coalesce v (JStr []))"
    subgoal for v by (cases v) simp_all
    done
  then show ?thesis by (simp add: fallbackMatch_def keyComponent_def)
qed

text \<open>
  Claim C5 as stated fails: the lookup compares joined keys, not triples. The edit of the row
  whose \<^verbatim>\<open>BoxNum\<close> is \<^verbatim>\<open>|\<close> goes to the earlier row whose \<^verbatim>\<open>NO\<close> is \<^verbatim>\<open>|\<close>, a row
  with another triple.
\<close>

theorem applyEdit_joined_key_collision:
  "keyTriple [(''NO'', JStr ''|'')] \<noteq> keyTriple [(''BoxNum'', JStr ''|'')]
   \<and> applyEdit [(''BoxNum'', JStr ''|'')] ''REMARKS'' ''Done''
        [[(''NO'', JStr ''|'')], [(''BoxNum'', JStr ''|'')]]
      = [[(''NO'', JStr ''|''), (''REMARKS'', JStr ''Done'')], [(''BoxNum'', JStr ''|'')]]"
  by (simp add: applyEdit_def findTarget_def rowIdentifier_unfold keyTriple_unfold
      keyComponent_def getProp_def)

text \<open>
  Claim C5, amended. Let no key component of the edited row or of any row of the dataset contain
  the character \<^verbatim>\<open>|\<close>. Then the new text goes to the first row whose key triple equals the
  edited row's; when no row has that triple, to the first row whose \<^verbatim>\<open>BoxNum\<close> and
  \<^verbatim>\<open>ContainerNum\<close> equal the edited row's as strings; every other row, and every other
  field of the target row, stays as it is; when neither lookup finds a row the dataset stays as
  it is. The number of rows never changes.
\<close>

theorem applyEdit_first_match:
  assumes "barFree r" and "\<forall>rr\<in>set allRows. barFree rr"
  shows "(i < length allRows \<and> keyTriple (allRows ! i) = keyTriple r
            \<and> (\<forall>j<i. keyTriple (allRows ! j) \<noteq> keyTriple r)
          \<longrightarrow> applyEdit r c newText allRows = allRows[i := setProp (allRows ! i) c (JStr newText)])
       \<and> ((\<forall>rr\<in>set allRows. keyTriple rr \<noteq> keyTriple r) \<and> i < length allRows
            \<and> fallbackMatch r (allRows ! i) \<and> (\<forall>j<i. \<not> fallbackMatch r (allRows ! j))
          \<longrightarrow> applyEdit r c newText allRows = allRows[i := setProp (allRows ! i) c (JStr newText)])
       \<and> ((\<forall>rr\<in>set allRows. keyTriple rr \<noteq> keyTriple r \<and> \<not> fallbackMatch r rr)
          \<longrightarrow> applyEdit r c newText allRows = allRows)
       \<and> length (applyEdit r c newText allRows) = length allRows
       \<and> (\<forall>rr. fallbackMatch r rr \<longleftrightarrow> keyComponent rr ''BoxNum'' = keyComponent r ''BoxNum''
              \<and> keyComponent rr ''ContainerNum'' = keyComponent r ''ContainerNum'')
       \<and> (\<forall>row k. getProp (setProp row c (JStr newText)) k
              = (if k = c then JStr newText else getProp row k))"
proof -
  have eq: "\<And>rr. rr \<in> set allRows \<Longrightarrow>
      (rowIdentifier rr = rowIdentifier r) = (keyTriple rr = keyTriple r)"
    using assms rowIdentifier_eq_iff by blast
  have 1: "applyEdit r c newText allRows = allRows[i := setProp (allRows ! i) c (JStr newText)]"
    if h: "i < length allRows" "keyTriple (allRows ! i) = keyTriple r"
      "\<forall>j<i. keyTriple (allRows ! j) \<noteq> keyTriple r"
  proof -
    have "rowIdentifier (allRows ! i) = rowIdentifier r" using h eq[of "allRows ! i"] by simp
    moreover have "\<forall>j<i. rowIdentifier (allRows ! j) \<noteq> rowIdentifier r"
    proof (intro allI impI)
      fix j assume "j < i"
      with h have "allRows ! j \<in> set allRows" "keyTriple (allRows ! j) \<noteq> keyTriple r" by simp_all
      then show "rowIdentifier (allRows ! j) \<noteq> rowIdentifier r" using eq by blast
    qed
    ultimately have "findTarget r allRows = Some i" using h(1) by (rule findTarget_primary[rotated])
    then show ?thesis by (simp add: applyEdit_def)
  qed
  have 2: "applyEdit r c newText allRows = allRows[i := setProp (allRows ! i) c (JStr newText)]"
    if h: "\<forall>rr\<in>set allRows. keyTriple rr \<noteq> keyTriple r" "i < length allRows"
      "fallbackMatch r (allRows ! i)" "\<forall>j<i. \<not> fallbackMatch r (allRows ! j)"
  proof -
    have "\<forall>rr\<in>set allRows. rowIdentifier rr \<noteq> rowIdentifier r" using h(1) eq by blast
    then have "findTarget r allRows = Some i" using h(2-4) by (rule findTarget_fallback)
    then show ?thesis by (simp add: applyEdit_def)
  qed
  have 3: "applyEdit r c newText allRows = allRows"
    if h: "\<forall>rr\<in>set allRows. keyTriple rr \<noteq> keyTriple r \<and> \<not> fallbackMatch r rr"
  proof -
    have "\<forall>rr\<in>set allRows. rowIdentifier rr \<noteq> rowIdentifier r \<and> \<not> fallbackMatch r rr"
      using h eq by blast
    then have "findTarget r allRows = None" by (rule findTarget_none)
    then show ?thesis by (simp add: applyEdit_def)
  qed
  have 4: "length (applyEdit r c newText allRows) = length allRows"
    by (simp add: applyEdit_def split: option.splits)
  show ?thesis using 1 2 3 4 fallbackMatch_pair getProp_setProp by blast
qed

text \<open>The example of the specification: the key (3, 7, 2) twice, the first of the two rows edited.\<close>

theorem applyEdit_first_match_witness:
  "barFree [(''NO'', JNum 3), (''BoxNum'', JStr ''7''), (''ContainerNum'', JStr ''2''), (''REMARKS'', JStr ''x'')]
   \<and> list_all barFree
        [[(''NO'', JNum 1), (''BoxNum'', JStr ''7''), (''ContainerNum'', JStr ''2'')],
         [(''NO'', JStr ''3''), (''BoxNum'', JStr ''7''), (''ContainerNum'', JStr ''2''), (''REMARKS'', JStr [])],
         [(''NO'', JNum 3), (''BoxNum'', JStr ''7''), (''ContainerNum'', JStr ''2''), (''REMARKS'', JStr ''x'')]]
   \<and> keyTriple [(''NO'', JNum 1), (''BoxNum'', JStr ''7''), (''ContainerNum'', JStr ''2'')]
       \<noteq> keyTriple [(''NO'', JNum 3), (''BoxNum'', JStr ''7''), (''ContainerNum'', JStr ''2''), (''REMARKS'', JStr ''x'')]
   \<and> keyTriple [(''NO'', JStr ''3''), (''BoxNum'', JStr ''7''), (''ContainerNum'', JStr ''2''), (''REMARKS'', JStr [])]
       = keyTriple [(''NO'', JNum 3), (''BoxNum'', JStr ''7''), (''ContainerNum'', JStr ''2''), (''REMARKS'', JStr ''x'')]
   \<and> applyEdit [(''NO'', JNum 3), (''BoxNum'', JStr ''7''), (''ContainerNum'', JStr ''2''), (''REMARKS'', JStr ''x'')]
        ''REMARKS'' ''Done''
        [[(''NO'', JNum 1), (''BoxNum'', JStr ''7''), (''ContainerNum'', JStr ''2'')],
         [(''NO'', JStr ''3''), (''BoxNum'', JStr ''7''), (''ContainerNum'', JStr ''2''), (''REMARKS'', JStr [])],
         [(''NO'', JNum 3), (''BoxNum'', JStr ''7''), (''ContainerNum'', JStr ''2''), (''REMARKS'', JStr ''x'')]]
      = [[(''NO'', JNum 1), (''BoxNum'', JStr ''7''), (''ContainerNum'', JStr ''2'')],
         [(''NO'', JStr ''3''), (''BoxNum'', JStr ''7''), (''ContainerNum'', JStr ''2''), (''REMARKS'', JStr ''Done'')],
         [(''NO'', JNum 3), (''BoxNum'', JStr ''7''), (''ContainerNum'', JStr ''2''), (''REMARKS'', JStr ''x'')]]"
proof -
  let ?r0 = "[(''NO'', JNum 1), (''BoxNum'', JStr ''7''), (''ContainerNum'', JStr ''2'')]"
  let ?r1 = "[(''NO'', JStr ''3''), (''BoxNum'', JStr ''7''), (''ContainerNum'', JStr ''2''), (''REMARKS'', JStr [])]"
  let ?r2 = "[(''NO'', JNum 3), (''BoxNum'', JStr ''7''), (''ContainerNum'', JStr ''2''), (''REMARKS'', JStr ''x'')]"
  have t0: "keyTriple ?r0 = [''1'', ''7'', ''2'']"
    by (simp add: keyTriple_unfold keyComponent_def getProp_def numEval)
  have t1: "keyTriple ?r1 = [''3'', ''7'', ''2'']"
    by (simp add: keyTriple_unfold keyComponent_def getProp_def)
  have t2: "keyTriple ?r2 = [''3'', ''7'', ''2'']"
    by (simp add: keyTriple_unfold keyComponent_def getProp_def numEval)
  have b0: "barFree ?r0" by (simp add: barFree_unfold keyComponent_def getProp_def numEval)
  have b1: "barFree ?r1" by (simp add: barFree_unfold keyComponent_def getProp_def)
  have b2: "barFree ?r2" by (simp add: barFree_unfold keyComponent_def getProp_def numEval)
  have all: "\<forall>rr\<in>set [?r0, ?r1, ?r2]. barFree rr" using b0 b1 b2 by simp
  have first: "\<forall>j<1. keyTriple ([?r0, ?r1, ?r2] ! j) \<noteq> keyTriple ?r2"
    using t0 t2 by simp
  have "applyEdit ?r2 ''REMARKS'' ''Done'' [?r0, ?r1, ?r2]
      = [?r0, ?r1, ?r2][1 := setProp ([?r0, ?r1, ?r2] ! 1) ''REMARKS'' (JStr ''Done'')]"
    using applyEdit_first_match[OF b2 all, of 1 "''REMARKS''" "''Done''"] first t1 t2 by simp
  then have "applyEdit ?r2 ''REMARKS'' ''Done'' [?r0, ?r1, ?r2]
      = [?r0, [(''NO'', JStr ''3''), (''BoxNum'', JStr ''7''), (''ContainerNum'', JStr ''2''),
               (''REMARKS'', JStr ''Done'')], ?r2]"
    by simp
  then show ?thesis using b0 b1 b2 t0 t1 t2 by simp
qed

section \<open>Properties of the column resolution\<close>

lemmas keyEval = normalizeKey_def trim_def toLowerCase_def charEval

lemmas resolveEval = foundOriginal_def orNext_def stepDirect_def stepAnyHeader_def
  stepSubstring_def stepAliasScan_def buildHeaderMap_def lookupTruthy_def truthyFound_def
  strIncludes_def COLUMN_ALIASES_def


lemma normalizeKey_expected:
  "normalizeKey ''NO'' = ''no''" "normalizeKey ''ContainerNum'' = ''containernum''"
  "normalizeKey ''BoxNum'' = ''boxnum''" "normalizeKey ''Container'' = ''container''"
  "normalizeKey ''BoxName'' = ''boxname''" "normalizeKey ''ItemCount'' = ''itemcount''"
  "normalizeKey ''Kits'' = ''kits''" "normalizeKey ''Factory'' = ''factory''"
  "normalizeKey ''REMARKS'' = ''remarks''"
  by (simp_all add: keyEval)

lemma k1: "normalizeKey ''#'' = []" by (simp add: keyEval)

lemma f1: "foundOriginal [(''#'', JStr ''x'')] ''NO'' = Some ''#''"
  by (simp add: resolveEval normalizeKey_expected k1)

lemma f2: "map (foundOriginal [(''#'', JStr ''x'')]) EXPECTED_COLS = replicate 9 (Some ''#'')"
  by (simp add: EXPECTED_COLS_def resolveEval normalizeKey_expected k1 numeral_eq_Suc)


text \<open>The keys looked up in \<^verbatim>\<open>headerMap\<close> are not names of inherited members.\<close>

lemma resolver_keys_not_inherited:
  "\<forall>k \<in> set (map normalizeKey EXPECTED_COLS @ map fst COLUMN_ALIASES). \<not> inherited k"
  by (simp add: EXPECTED_COLS_def COLUMN_ALIASES_def normalizeKey_expected inherited_def
      objectPrototypeKeys_def)

lemma map_of_foldl_setProp:
  "map_of (foldl (\<lambda>nr col. setProp nr col (f col)) nr0 cols) k
     = (if k \<in> set cols then Some (f k) else map_of nr0 k)"
  by (induction cols arbitrary: nr0) (auto simp: map_of_setProp)

lemma map_of_foldl_extras:
  "map_of (foldl (\<lambda>nr k. if P k then setProp nr k (g k) else nr) nr0 ks) k
     = (if k \<in> set ks \<and> P k then Some (g k) else map_of nr0 k)"
  by (induction ks arbitrary: nr0) (auto simp: map_of_setProp)

lemma map_of_resolveColumns:
  "map_of (resolveColumns r) k
     = (if k \<in> set EXPECTED_COLS
        then Some (case foundOriginal r k of None \<Rightarrow> JStr [] | Some h \<Rightarrow> getProp r h)
        else None)"
  unfolding resolveColumns_def by (simp add: map_of_foldl_setProp)

lemma map_of_normalizeRow:
  "map_of (normalizeRow r) k
     = (if k \<in> set (map fst r) \<and> canonicalColumnFor k = NoColumn then Some (getProp r k)
        else if k \<in> set EXPECTED_COLS
        then Some (case foundOriginal r k of None \<Rightarrow> JStr [] | Some h \<Rightarrow> getProp r h)
        else None)"
  unfolding normalizeRow_def keepExtras_def
  by (simp only: map_of_foldl_extras map_of_resolveColumns)

lemma normalizeKey_expected_nonempty: "c \<in> set EXPECTED_COLS \<Longrightarrow> normalizeKey c \<noteq> []"
  by (auto simp: EXPECTED_COLS_def normalizeKey_expected)





text \<open>
  Claim C3 fails on the code. \<^const>\<open>normalizeKey\<close> of the empty string is the empty key, and
  so is the key of the header \<^verbatim>\<open>#\<close>; but the substring step asks whether the column's key
  includes the header's key, which the empty key satisfies: in a row whose only header is
  \<^verbatim>\<open>#\<close> every canonical column resolves to that header and takes its value.
\<close>

theorem empty_key_header_resolves:
  "normalizeKey [] = [] \<and> normalizeKey ''#'' = []
   \<and> map (foundOriginal [(''#'', JStr ''x'')]) EXPECTED_COLS = replicate 9 (Some ''#'')
   \<and> map_of (normalizeRow [(''#'', JStr ''x'')]) ''NO'' = Some (JStr ''x'')"
proof -
  have a: "normalizeKey [] = []" by (simp add: keyEval)
  have b: "''NO'' \<in> set EXPECTED_COLS" by (simp add: EXPECTED_COLS_def)
  have "map_of (normalizeRow [(''#'', JStr ''x'')]) ''NO'' = Some (JStr ''x'')"
    using b by (simp add: map_of_normalizeRow f1 getProp_def)
  with a k1 f2 show ?thesis by simp
qed




section \<open>Properties of the percentage\<close>

lemma bitLength_bounds: "0 < n \<Longrightarrow> 2 ^ (bitLength n - 1) \<le> n \<and> n < 2 ^ bitLength n"
proof (induction n rule: bitLength.induct)
  case (1 n)
  show ?case
  proof (cases "n div 2 = 0")
    case True
    with 1(2) have "n = 1" by (auto simp: div_eq_0_iff)
    then show ?thesis by (simp add: bitLength.simps)
  next
    case False
    then have "0 < n div 2" by simp
    with 1 have ih: "2 ^ (bitLength (n div 2) - 1) \<le> n div 2" "n div 2 < 2 ^ bitLength (n div 2)"
      by simp_all
    have b: "bitLength n = Suc (bitLength (n div 2))" using 1(2) by (simp add: bitLength.simps)
    have pos: "0 < bitLength (n div 2)" using False by (simp add: bitLength.simps)
    have "(2::nat) ^ bitLength (n div 2) = 2 * 2 ^ (bitLength (n div 2) - 1)"
      using pos by (cases "bitLength (n div 2)") simp_all
    then have "(2::nat) ^ bitLength (n div 2) \<le> 2 * (n div 2)" using ih(1) by simp
    then have l: "2 ^ (bitLength n - 1) \<le> n" using b by simp
    have "n < 2 * (n div 2) + 2" by simp
    also have "\<dots> \<le> 2 * 2 ^ bitLength (n div 2)" using ih(2) by simp
    finally have "n < 2 ^ bitLength n" using b by simp
    with l show ?thesis by simp
  qed
qed

lemma roundHalfEven_error_int:
  assumes "0 < d"
  shows "\<bar>2 * d * roundHalfEven n d - 2 * n\<bar> \<le> d"
proof -
  define q where "q = n div d"
  define r where "r = n mod d"
  have n: "n = q * d + r" by (simp add: q_def r_def)
  have r: "0 \<le> r" "r < d" using assms by (simp_all add: r_def)
  have "roundHalfEven n d = q \<and> 2 * r \<le> d \<or> roundHalfEven n d = q + 1 \<and> d \<le> 2 * r"
    unfolding roundHalfEven_def Let_def q_def[symmetric] r_def[symmetric] by auto
  then show ?thesis
  proof
    assume a: "roundHalfEven n d = q \<and> 2 * r \<le> d"
    have "2 * d * q - 2 * n = - 2 * r" unfolding n by (simp add: algebra_simps)
    with a r show ?thesis by simp
  next
    assume a: "roundHalfEven n d = q + 1 \<and> d \<le> 2 * r"
    have "2 * d * (q + 1) - 2 * n = 2 * d - 2 * r" unfolding n by (simp add: algebra_simps)
    with a r show ?thesis by simp
  qed
qed

lemma roundHalfEven_error:
  assumes "0 < d"
  shows "\<bar>(of_int (roundHalfEven n d) :: rat) - of_int n / of_int d\<bar> \<le> 1 / 2"
proof -
  have "\<bar>2 * d * roundHalfEven n d - 2 * n\<bar> \<le> d" using assms by (rule roundHalfEven_error_int)
  then have "(of_int \<bar>2 * d * roundHalfEven n d - 2 * n\<bar> :: rat) \<le> of_int d"
    by (simp only: of_int_le_iff)
  then have "\<bar>2 * of_int d * (of_int (roundHalfEven n d) :: rat) - 2 * of_int n\<bar> \<le> of_int d"
    by simp
  moreover have "2 * of_int d * (of_int (roundHalfEven n d) :: rat) - 2 * of_int n
      = 2 * of_int d * (of_int (roundHalfEven n d) - of_int n / of_int d)"
    using assms by (simp add: field_simps)
  ultimately have "2 * of_int d * \<bar>(of_int (roundHalfEven n d) :: rat) - of_int n / of_int d\<bar> \<le> of_int d"
    using assms by (simp add: abs_mult)
  then show ?thesis using assms by (simp add: field_simps)
qed

lemma roundHalfEven_nonneg: "0 \<le> n \<Longrightarrow> 0 < d \<Longrightarrow> 0 \<le> roundHalfEven n d"
  by (auto simp: roundHalfEven_def Let_def pos_imp_zdiv_nonneg_iff)

lemma mathRound_floor: "mathRound x = \<lfloor>dblValue x + 1 / 2\<rfloor>"
proof (cases "0 \<le> snd x")
  case True
  then have "dblValue x = of_int (fst x * 2 ^ nat (snd x))"
    by (simp add: dblValue_def power_int_def)
  then have "\<lfloor>dblValue x + 1 / 2\<rfloor> = fst x * 2 ^ nat (snd x)"
    by (simp only: floor_eq_iff) simp
  with True show ?thesis by (simp add: mathRound_def Let_def)
next
  case False
  define k where "k = nat (- snd x)"
  have e: "snd x = - int k" "nat (1 - snd x) = Suc k" using False by (simp_all add: k_def)
  have "dblValue x + 1 / 2 = of_int (2 * fst x + 2 ^ k) / of_int (2 ^ Suc k)"
    by (simp add: dblValue_def e power_int_minus field_simps)
  then have "\<lfloor>dblValue x + 1 / 2\<rfloor> = (2 * fst x + 2 ^ k) div 2 ^ Suc k"
    by (simp only: floor_divide_of_int_eq)
  moreover have "nat (1 + int k) = Suc k" by simp
  ultimately show ?thesis using False by (simp add: mathRound_def Let_def e)
qed

lemma le_divide_of_mult_le: "(0::rat) < b \<Longrightarrow> b * c \<le> a \<Longrightarrow> c \<le> a / b"
  by (simp add: pos_le_divide_eq mult.commute)

lemma inverse_le_divide: "(0::rat) < b \<Longrightarrow> 0 < c \<Longrightarrow> b \<le> a * c \<Longrightarrow> inverse c \<le> a / b"
  by (simp add: pos_le_divide_eq inverse_eq_divide pos_divide_le_eq)

lemma powi_nat: "0 \<le> d \<Longrightarrow> (2::rat) powi d = 2 ^ nat d"
  by (simp add: power_int_def)

lemma powi_neg: "d < 0 \<Longrightarrow> (2::rat) powi d = inverse (2 ^ nat (- d))"
  by (simp add: power_int_def power_one_over inverse_eq_divide)

lemma powi_diff_nat: "(2::rat) powi (int m - int n) = 2 ^ m / 2 ^ n"
  by (simp add: power_int_diff)

lemma binExponent_lower:
  assumes "0 < a" "0 < b"
  shows "(2::rat) powi (binExponent a b) \<le> of_nat a / of_nat b"
proof -
  define d where "d = int (bitLength a) - int (bitLength b)"
  define c where "c = (if 0 \<le> d then int b * 2 ^ nat d \<le> int a else int b \<le> int a * 2 ^ nat (- d))"
  have be: "binExponent a b = (if c then d else d - 1)"
    by (simp add: binExponent_def Let_def c_def d_def)
  have bpos: "(0::rat) < of_nat b" using assms by simp
  consider (A) "c" "0 \<le> d" | (B) "c" "d < 0" | (C) "\<not> c" by fastforce
  then show ?thesis
  proof cases
    case A
    then have "int b * 2 ^ nat d \<le> int a" by (simp add: c_def)
    then have "(of_int (int b * 2 ^ nat d) :: rat) \<le> of_int (int a)" by (simp only: of_int_le_iff)
    then have "(of_nat b :: rat) * 2 ^ nat d \<le> of_nat a" by simp
    then have "(2::rat) ^ nat d \<le> of_nat a / of_nat b" using bpos by (rule le_divide_of_mult_le[rotated])
    then show ?thesis using A by (simp only: be if_True powi_nat)
  next
    case B
    then have "int b \<le> int a * 2 ^ nat (- d)" by (simp add: c_def)
    then have "(of_int (int b) :: rat) \<le> of_int (int a * 2 ^ nat (- d))" by (simp only: of_int_le_iff)
    then have "(of_nat b :: rat) \<le> of_nat a * 2 ^ nat (- d)" by simp
    then have "inverse ((2::rat) ^ nat (- d)) \<le> of_nat a / of_nat b"
      using bpos by (intro inverse_le_divide) simp_all
    then show ?thesis using B by (simp only: be if_True powi_neg)
  next
    case C
    have ba: "2 ^ (bitLength a - 1) \<le> a" and bb: "b < 2 ^ bitLength b"
      using assms bitLength_bounds by simp_all
    have la: "0 < bitLength a" using assms(1) by (simp add: bitLength.simps)
    have "(of_nat (2 ^ (bitLength a - 1)) :: rat) \<le> of_nat a" using ba by (simp only: of_nat_le_iff)
    then have x: "(2::rat) ^ (bitLength a - 1) \<le> of_nat a" by simp
    have "(of_nat b :: rat) < of_nat (2 ^ bitLength b)" using bb by (simp only: of_nat_less_iff)
    then have y: "(of_nat b :: rat) \<le> 2 ^ bitLength b" by simp
    have "(2::rat) ^ (bitLength a - 1) / 2 ^ bitLength b \<le> of_nat a / of_nat b"
      using x y bpos by (simp add: divide_mono)
    moreover have "(2::rat) ^ (bitLength a - 1) / 2 ^ bitLength b = 2 powi (d - 1)"
    proof -
      have "d - 1 = int (bitLength a - 1) - int (bitLength b)" using la by (simp add: d_def)
      then show ?thesis by (simp only: powi_diff_nat)
    qed
    ultimately show ?thesis using C by (simp only: be if_False)
  qed
qed

lemma dblDiv_error:
  assumes "0 < a" "0 < b"
  shows "\<bar>dblValue (dblDiv a b) - of_nat a / of_nat b\<bar> \<le> (of_nat a / of_nat b) / 2 ^ 53"
    and "0 \<le> fst (dblDiv a b)"
proof -
  define e where "e = binExponent a b - 52"
  define x :: rat where "x = of_nat a / of_nat b"
  define M where "M = (if e \<le> 0 then roundHalfEven (int a * 2 ^ nat (- e)) (int b)
               else roundHalfEven (int a) (int b * 2 ^ nat e))"
  have dd: "dblDiv a b = (M, e)" using assms by (simp add: dblDiv_def e_def M_def Let_def)
  have low: "2 powi (e + 52) \<le> x" using binExponent_lower[OF assms] by (simp add: e_def x_def)
  have pw: "(0::rat) < 2 powi e" by simp
  have M: "\<bar>of_int M - x / 2 powi e\<bar> \<le> 1 / 2"
  proof (cases "e \<le> 0")
    case True
    have "\<bar>(of_int (roundHalfEven (int a * 2 ^ nat (- e)) (int b)) :: rat)
        - of_int (int a * 2 ^ nat (- e)) / of_int (int b)\<bar> \<le> 1 / 2"
      using assms by (intro roundHalfEven_error) simp
    moreover have "(of_int (int a * 2 ^ nat (- e)) :: rat) / of_int (int b) = x / 2 powi e"
    proof -
      define n where "n = nat (- e)"
      have "e = - int n" using True by (simp add: n_def)
      then have "(2::rat) powi e = inverse (2 ^ n)" by (simp add: power_int_minus)
      then have "x / 2 powi e = x * 2 ^ n" by (simp add: divide_inverse)
      then show ?thesis by (simp add: x_def n_def)
    qed
    ultimately show ?thesis using True by (simp add: M_def)
  next
    case False
    have "\<bar>(of_int (roundHalfEven (int a) (int b * 2 ^ nat e)) :: rat)
        - of_int (int a) / of_int (int b * 2 ^ nat e)\<bar> \<le> 1 / 2"
      using assms by (intro roundHalfEven_error) simp
    moreover have "(of_int (int a) :: rat) / of_int (int b * 2 ^ nat e) = x / 2 powi e"
    proof -
      define n where "n = nat e"
      have "e = int n" using False by (simp add: n_def)
      then have "(2::rat) powi e = 2 ^ n" by simp
      then show ?thesis by (simp add: x_def n_def)
    qed
    ultimately show ?thesis using False by (simp add: M_def)
  qed
  have "2 powi e * (x / 2 powi e) = x" by simp
  then have "dblValue (dblDiv a b) - x = 2 powi e * (of_int M - x / 2 powi e)"
    by (simp only: dd dblValue_def fst_conv snd_conv right_diff_distrib mult.commute)
  then have "\<bar>dblValue (dblDiv a b) - x\<bar> = 2 powi e * \<bar>of_int M - x / 2 powi e\<bar>"
    by (simp add: abs_mult)
  also have "\<dots> \<le> 2 powi e * (1 / 2)" using M pw by (intro mult_left_mono) simp_all
  also have "\<dots> = 2 powi (e + 52) / 2 ^ 53"
  proof -
    have "(2::rat) powi (e + 52) = 2 powi e * 2 ^ 52" by (simp add: power_int_add)
    then show ?thesis by simp
  qed
  also have "\<dots> \<le> x / 2 ^ 53" using low by (simp add: divide_right_mono)
  finally show "\<bar>dblValue (dblDiv a b) - of_nat a / of_nat b\<bar> \<le> (of_nat a / of_nat b) / 2 ^ 53"
    by (simp add: x_def)
  show "0 \<le> fst (dblDiv a b)"
    using assms by (auto simp: dd M_def intro!: roundHalfEven_nonneg)
qed

lemma dblTimes100_error:
  assumes "0 \<le> fst x"
  shows "\<bar>dblValue (dblTimes100 x) - 100 * dblValue x\<bar> \<le> 100 * dblValue x / 2 ^ 53"
proof -
  define p where "p = 100 * fst x"
  define s where "s = int (bitLength (nat p)) - 53"
  have p0: "0 \<le> p" using assms by (simp add: p_def)
  have v: "100 * dblValue x = of_int p * 2 powi (snd x)" by (simp add: dblValue_def p_def)
  have vpos: "0 \<le> 100 * dblValue x" unfolding v using p0 by simp
  show ?thesis
  proof (cases "s \<le> 0")
    case True
    then have "int (bitLength (nat (100 * fst x))) - 53 \<le> 0" by (simp add: s_def p_def)
    then have "dblTimes100 x = (p, snd x)"
      by (simp add: dblTimes100_def Let_def p_def)
    then have "dblValue (dblTimes100 x) = 100 * dblValue x" by (simp add: dblValue_def p_def)
    with vpos show ?thesis by simp
  next
    case False
    define k where "k = nat s"
    have sk: "s = int k" "0 < k" using False by (simp_all add: k_def)
    have bl: "bitLength (nat p) = k + 53" using sk by (simp add: s_def)
    then have "nat p \<noteq> 0" by (auto simp: bitLength.simps)
    then have "0 < nat p" by simp
    then have "2 ^ (bitLength (nat p) - 1) \<le> nat p" using bitLength_bounds by blast
    moreover have "bitLength (nat p) - 1 = k + 52" by (simp add: bl)
    ultimately have "(2::nat) ^ (k + 52) \<le> nat p" by (simp only:)
    then have "int ((2::nat) ^ (k + 52)) \<le> int (nat p)" by (simp only: of_nat_le_iff)
    also have "int (nat p) = p" using p0 by simp
    finally have "(of_int (int ((2::nat) ^ (k + 52))) :: rat) \<le> of_int p" by (simp only: of_int_le_iff)
    moreover have "(of_int (int ((2::nat) ^ (k + 52))) :: rat) = 2 ^ k * 2 ^ 52"
      by (simp add: power_add)
    ultimately have big: "(2::rat) ^ k * 2 ^ 52 \<le> of_int p" by (simp only:)
    define M where "M = roundHalfEven p (2 ^ k)"
    have "\<not> int (bitLength (nat (100 * fst x))) - 53 \<le> 0" using False by (simp add: s_def p_def)
    moreover have "nat (int (bitLength (nat (100 * fst x))) - 53) = k" by (simp add: k_def s_def p_def)
    moreover have "int (bitLength (nat (100 * fst x))) - 53 = int k" using sk by (simp add: s_def p_def)
    ultimately have dt: "dblTimes100 x = (M, snd x + int k)"
      by (simp add: dblTimes100_def Let_def M_def p_def)
    have M: "\<bar>(of_int M :: rat) - of_int p / 2 ^ k\<bar> \<le> 1 / 2"
      using roundHalfEven_error[of "2 ^ k" p] by (simp add: M_def)
    have pw: "(0::rat) < 2 powi (snd x)" by simp
    have pk: "(2::rat) powi (snd x + int k) = 2 powi (snd x) * 2 ^ k"
      by (simp add: power_int_add)
    have cancel: "(2::rat) ^ k * (of_int p / 2 ^ k) = of_int p" by simp
    have "dblValue (dblTimes100 x) = of_int M * (2 powi (snd x) * 2 ^ k)"
      unfolding dt dblValue_def fst_conv snd_conv pk ..
    then have "dblValue (dblTimes100 x) - 100 * dblValue x
        = 2 powi (snd x) * (2 ^ k * of_int M - 2 ^ k * (of_int p / 2 ^ k))"
      unfolding v cancel by (simp add: algebra_simps)
    then have "dblValue (dblTimes100 x) - 100 * dblValue x
        = 2 powi (snd x) * 2 ^ k * (of_int M - of_int p / 2 ^ k)"
      by (simp only: right_diff_distrib mult.assoc)
    then have "\<bar>dblValue (dblTimes100 x) - 100 * dblValue x\<bar>
        = 2 powi (snd x) * 2 ^ k * \<bar>of_int M - of_int p / 2 ^ k\<bar>"
      by (simp add: abs_mult)
    also have "\<dots> \<le> 2 powi (snd x) * 2 ^ k * (1 / 2)"
      using M pw by (intro mult_left_mono) simp_all
    also have "\<dots> = 2 powi (snd x) * ((2::rat) ^ k * 2 ^ 52) / 2 ^ 53" by simp
    also have "\<dots> \<le> 2 powi (snd x) * of_int p / 2 ^ 53"
      using big pw by (intro divide_right_mono mult_left_mono) simp_all
    also have "\<dots> = 100 * dblValue x / 2 ^ 53"
      unfolding v by (simp only: mult.commute)
    finally show ?thesis .
  qed
qed

lemma percent_zero: "percent 0 t = 0"
  by (simp add: percent_def dblDiv_def dblTimes100_def mathRound_def bitLength.simps Let_def)

lemma nearest_aux:
  fixes p q r s h :: rat
  shows "\<bar>q - r\<bar> < h \<Longrightarrow> p - q \<le> s \<Longrightarrow> - s < p - q \<Longrightarrow> \<bar>p - r\<bar> < s + h"
  by linarith

lemma double_aux:
  fixes a b :: rat
  shows "a < b / 2 + 1 / 2 \<Longrightarrow> 2 * a < b + 1"
  by (simp add: field_simps)

lemma percent_nearest:
  assumes "0 < t" "f \<le> t" "t \<le> 2 ^ 43"
  shows "2 * \<bar>percent f t * int t - 100 * int f\<bar> \<le> int t"
proof (cases "f = 0")
  case True
  then show ?thesis by (simp add: percent_zero)
next
  case False
  then have fpos: "0 < f" by simp
  define T :: rat where "T = of_nat t"
  define F :: rat where "F = of_nat f"
  define x where "x = F / T"
  define y1 where "y1 = dblValue (dblDiv f t)"
  define y2 where "y2 = dblValue (dblTimes100 (dblDiv f t))"
  define K :: rat where "K = of_int (percent f t)"
  have Tpos: "0 < T" using assms by (simp add: T_def)
  have Tle: "T \<le> 2 ^ 43"
  proof -
    have "(of_nat t :: rat) \<le> of_nat (2 ^ 43)" using assms(3) by (simp only: of_nat_le_iff)
    then show ?thesis by (simp add: T_def)
  qed
  have FT: "F \<le> T" using assms by (simp add: F_def T_def)
  have Fpos: "0 < F" using fpos by (simp add: F_def)
  have x01: "0 < x" "x \<le> 1" using Tpos Fpos FT by (simp_all add: x_def)
  define u :: rat where "u = 1 / 2 ^ 53"
  have u: "0 < u" "u \<le> 1" by (simp_all add: u_def)
  have u43: "2 ^ 43 * (300 * u) < 1 / 2" by (simp add: u_def)
  have e1: "\<bar>y1 - x\<bar> \<le> x * u"
    using dblDiv_error(1)[OF fpos assms(1)] by (simp add: y1_def x_def F_def T_def u_def)
  have n1: "0 \<le> fst (dblDiv f t)" using dblDiv_error(2)[OF fpos assms(1)] .
  have e2: "\<bar>y2 - 100 * y1\<bar> \<le> 100 * y1 * u"
    using dblTimes100_error[OF n1] by (simp add: y2_def y1_def u_def)
  have "x * u \<le> 1 * u" using x01 u by (intro mult_right_mono) simp_all
  with e1 have a1: "\<bar>y1 - x\<bar> \<le> u" by linarith
  then have y1le: "y1 \<le> 2" using x01 u by linarith
  then have "100 * y1 * u \<le> 100 * 2 * u" using u by (intro mult_right_mono mult_left_mono) simp_all
  with e2 have a2: "\<bar>y2 - 100 * y1\<bar> \<le> 200 * u" by linarith
  have err: "\<bar>y2 - 100 * x\<bar> \<le> 300 * u" using a1 a2 by linarith
  have A: "\<bar>y2 * T - 100 * F\<bar> < 1 / 2"
  proof -
    have "T * (100 * x) = 100 * F" using Tpos by (simp add: x_def)
    then have "y2 * T - 100 * F = T * (y2 - 100 * x)" by (simp add: algebra_simps)
    then have "\<bar>y2 * T - 100 * F\<bar> = T * \<bar>y2 - 100 * x\<bar>" using Tpos by (simp add: abs_mult)
    also have "\<dots> \<le> T * (300 * u)" using err Tpos by (intro mult_left_mono) simp_all
    also have "\<dots> \<le> 2 ^ 43 * (300 * u)" using Tle u by (intro mult_right_mono) simp_all
    also have "\<dots> < 1 / 2" by (rule u43)
    finally show ?thesis .
  qed
  have k: "percent f t = \<lfloor>y2 + 1 / 2\<rfloor>"
    using assms(1) by (simp add: percent_def mathRound_floor y2_def)
  have K1: "K \<le> y2 + 1 / 2" unfolding K_def k by (rule of_int_floor_le)
  have K2: "y2 + 1 / 2 < K + 1" unfolding K_def k by linarith
  have B1: "K * T - y2 * T \<le> T / 2"
  proof -
    have "(K - y2) * T \<le> (1 / 2) * T" using K1 Tpos by (intro mult_right_mono) simp_all
    then show ?thesis by (simp add: algebra_simps)
  qed
  have B2: "- (T / 2) < K * T - y2 * T"
  proof -
    have "(- (1 / 2)) * T < (K - y2) * T" using K2 Tpos by (intro mult_strict_right_mono) simp_all
    then show ?thesis by (simp add: algebra_simps)
  qed
  have "\<bar>K * T - 100 * F\<bar> < T / 2 + 1 / 2" using A B1 B2 by (rule nearest_aux)
  then have "2 * \<bar>K * T - 100 * F\<bar> < T + 1" by (rule double_aux)
  moreover have "2 * \<bar>K * T - 100 * F\<bar> = of_int (2 * \<bar>percent f t * int t - 100 * int f\<bar>)"
    by (simp add: K_def T_def F_def)
  moreover have "T + 1 = of_int (int t + 1)" by (simp add: T_def)
  ultimately have "(of_int (2 * \<bar>percent f t * int t - 100 * int f\<bar>) :: rat) < of_int (int t + 1)"
    by simp
  then have "2 * \<bar>percent f t * int t - 100 * int f\<bar> < int t + 1" by (simp only: of_int_less_iff)
  then show ?thesis by simp
qed

section \<open>Properties of the analytics\<close>

lemma map_fst_setProp_new:
  "k \<notin> set (map fst m) \<Longrightarrow> map fst (setProp m k v) = map fst m @ [k]"
  by (induction m) auto

lemma map_fst_modifyProp: "map fst (modifyProp m k f) = map fst m"
  by (induction m) (auto simp: modifyProp_def)

lemma map_of_modifyProp:
  "map_of (modifyProp m k f) k' = (if k' = k then map_option f (map_of m k) else map_of m k')"
  by (induction m) (auto simp: modifyProp_def)

lemma modifyProp_absent: "map_of m k = None \<Longrightarrow> modifyProp m k f = m"
  by (induction m) (auto simp: modifyProp_def split: if_splits)

lemma groupTotal_snoc:
  "groupTotal k (rows @ [r]) = groupTotal k rows + (if containerKey r = k then 1 else 0)"
  by (simp add: groupTotal_def)

lemma groupFinished_snoc:
  "groupFinished k (rows @ [r]) = groupFinished k rows
     + (if containerKey r = k \<and> isCompleted (getProp r ''REMARKS'') then 1 else 0)"
  by (simp add: groupFinished_def)

lemma groupTotal_absent: "k \<notin> containerKey ` set rows \<Longrightarrow> groupTotal k rows = 0"
  by (auto simp: groupTotal_def filter_empty_conv)

lemma groupFinished_absent: "k \<notin> containerKey ` set rows \<Longrightarrow> groupFinished k rows = 0"
  by (auto simp: groupFinished_def filter_empty_conv)

lemma groupKeys_snoc:
  "groupKeys (rows @ [r])
     = (if inherited (containerKey r) then groupKeys rows else insert (containerKey r) (groupKeys rows))"
  by (auto simp: groupKeys_def)

lemma groupKeys_finite: "finite (groupKeys rows)"
  by (simp add: groupKeys_def)

lemma groupKeys_all:
  "\<forall>r\<in>set rows. \<not> inherited (containerKey r) \<Longrightarrow> groupKeys rows = containerKey ` set rows"
  by (auto simp: groupKeys_def)

lemma tallied_keys:
  assumes "tallied acc rows"
  shows "set (map fst acc) = groupKeys rows"
proof -
  have "k \<in> set (map fst acc) \<longleftrightarrow> k \<in> groupKeys rows" for k
  proof -
    have "k \<in> set (map fst acc) \<longleftrightarrow> map_of acc k \<noteq> None"
      by (simp add: map_of_eq_None_iff)
    also have "\<dots> \<longleftrightarrow> k \<in> groupKeys rows"
      using assms by (simp add: tallied_def)
    finally show ?thesis .
  qed
  then show ?thesis by blast
qed

lemma tallyRow_inherited:
  assumes "tallied acc rows" "inherited (containerKey r)"
  shows "tallyRow acc r = acc"
proof -
  have "containerKey r \<notin> groupKeys rows" using assms(2) by (simp add: groupKeys_def)
  then have n: "map_of acc (containerKey r) = None" using assms(1) by (simp add: tallied_def)
  show ?thesis using assms(2) n by (simp add: tallyRow_def Let_def modifyProp_absent)
qed

lemma tallyRow_step:
  assumes "tallied acc rows"
  shows "tallied (tallyRow acc r) (rows @ [r])"
proof (cases "inherited (containerKey r)")
  case True
  have e: "tallyRow acc r = acc" using assms True by (rule tallyRow_inherited)
  have k: "groupKeys (rows @ [r]) = groupKeys rows" using True by (simp add: groupKeys_snoc)
  have "\<And>k. k \<in> groupKeys rows \<Longrightarrow> k \<noteq> containerKey r"
    using True by (auto simp: groupKeys_def)
  then show ?thesis
    using assms unfolding e tallied_def k
    by (auto simp: groupTotal_snoc groupFinished_snoc)
next
  case own: False
  let ?c = "containerKey r"
  let ?b1 = "if map_of acc ?c = None then setProp acc ?c \<lparr>total = 0, finished = 0\<rparr> else acc"
  have keys: "set (map fst acc) = groupKeys rows" using assms by (rule tallied_keys)
  have dist: "distinct (map fst acc)" using assms by (simp add: tallied_def)
  have m: "\<And>k. map_of acc k =
        (if k \<in> groupKeys rows
         then Some \<lparr>total = groupTotal k rows, finished = groupFinished k rows\<rparr> else None)"
    using assms by (simp add: tallied_def)
  have in_iff: "?c \<in> groupKeys rows \<longleftrightarrow> ?c \<in> containerKey ` set rows"
    using own by (simp add: groupKeys_def)
  have none_iff: "map_of acc ?c = None \<longleftrightarrow> ?c \<notin> containerKey ` set rows"
    using m[of ?c] in_iff by simp
  have d1: "distinct (map fst ?b1)"
  proof (cases "map_of acc ?c = None")
    case True
    then have "?c \<notin> set (map fst acc)" by (simp add: map_of_eq_None_iff)
    then show ?thesis using True dist by (simp add: map_fst_setProp_new)
  next
    case False
    then have e: "?b1 = acc" by (simp only: if_False)
    show ?thesis unfolding e using dist .
  qed
  have m1: "map_of ?b1 k =
        (if k = ?c then Some \<lparr>total = groupTotal k rows, finished = groupFinished k rows\<rparr>
         else map_of acc k)" for k
  proof (cases "map_of acc ?c = None")
    case True
    then have "?c \<notin> containerKey ` set rows" using none_iff by simp
    then show ?thesis using True
      by (simp add: map_of_setProp groupTotal_absent groupFinished_absent)
  next
    case False
    then have "?c \<in> groupKeys rows" using none_iff in_iff by simp
    then show ?thesis using False m[of ?c] by simp
  qed
  let ?b2 = "modifyProp ?b1 ?c (\<lambda>v. v\<lparr>total := total v + 1\<rparr>)"
  let ?b3 = "if isCompleted (getProp r ''REMARKS'')
             then modifyProp ?b2 ?c (\<lambda>v. v\<lparr>finished := finished v + 1\<rparr>) else ?b2"
  have t: "tallyRow acc r = ?b3" using own by (simp add: tallyRow_def Let_def)
  have d3: "distinct (map fst ?b3)" using d1 by (simp add: map_fst_modifyProp)
  have k: "groupKeys (rows @ [r]) = insert ?c (groupKeys rows)" using own by (simp add: groupKeys_snoc)
  have m3: "map_of ?b3 k =
        (if k \<in> groupKeys (rows @ [r])
         then Some \<lparr>total = groupTotal k (rows @ [r]), finished = groupFinished k (rows @ [r])\<rparr>
         else None)" for k
  proof (cases "k = ?c")
    case True
    then show ?thesis unfolding k
      by (simp add: map_of_modifyProp m1 groupTotal_snoc groupFinished_snoc)
  next
    case False
    then show ?thesis unfolding k
      using m[of k] by (auto simp: map_of_modifyProp m1 groupTotal_snoc groupFinished_snoc)
  qed
  show ?thesis unfolding t tallied_def using d3 m3 by blast
qed

lemma tallied_foldl: "tallied (foldl tallyRow [] rows) rows"
proof (induction rows rule: rev_induct)
  case Nil
  show ?case by (simp add: tallied_def groupKeys_def)
next
  case (snoc r rows)
  then show ?case using tallyRow_step by simp
qed

lemma foldl_emitGroup:
  assumes "\<And>k. k \<in> set ks \<Longrightarrow> map_of byC k = Some \<lparr>total = T k, finished = F k\<rparr>"
  shows "foldl (emitGroup byC) (out, tot, fin) ks
     = (out @ map (\<lambda>k. analyticsRecord k (T k) (F k)) ks,
        tot + sum_list (map T ks), fin + sum_list (map F ks))"
  using assms
proof (induction ks arbitrary: out tot fin)
  case Nil
  show ?case by simp
next
  case (Cons k ks)
  have "emitGroup byC (out, tot, fin) k = (out @ [analyticsRecord k (T k) (F k)], tot + T k, fin + F k)"
    using Cons.prems[of k] by (simp add: emitGroup_def)
  then show ?case using Cons.IH[of "out @ [analyticsRecord k (T k) (F k)]" "tot + T k" "fin + F k"] Cons.prems
    by simp
qed

lemma sum_list_indicator:
  "distinct ks \<Longrightarrow> x \<in> set ks \<Longrightarrow> sum_list (map (\<lambda>k. if x = k then (c::nat) else 0) ks) = c"
  by (induction ks) auto

lemma sum_list_group_counts:
  assumes "distinct ks" "f ` set rows \<subseteq> set ks"
  shows "sum_list (map (\<lambda>k. length (filter (\<lambda>r. f r = k \<and> P r) rows)) ks) = length (filter P rows)"
  using assms(2)
proof (induction rows)
  case Nil
  show ?case by simp
next
  case (Cons r rows)
  have "sum_list (map (\<lambda>k. length (filter (\<lambda>x. f x = k \<and> P x) (r # rows))) ks)
      = sum_list (map (\<lambda>k. (if f r = k then (if P r then 1 else 0) else 0)
                            + length (filter (\<lambda>x. f x = k \<and> P x) rows)) ks)"
    by (intro arg_cong[where f = sum_list] map_cong) auto
  also have "\<dots> = sum_list (map (\<lambda>k. if f r = k then (if P r then 1 else 0) else 0) ks)
      + sum_list (map (\<lambda>k. length (filter (\<lambda>x. f x = k \<and> P x) rows)) ks)"
    by (simp add: sum_list_addf)
  also have "\<dots> = (if P r then 1 else 0) + length (filter P rows)"
    using Cons assms(1) sum_list_indicator[of ks "f r" "if P r then 1 else 0"] by simp
  finally show ?case by simp
qed

text \<open>The rows that \<^const>\<open>buildAnalytics\<close> counts.\<close>

lemma counted_group:
  assumes "\<not> inherited k"
  shows "groupTotal k (filter (\<lambda>r. \<not> inherited (containerKey r)) rows) = groupTotal k rows"
    and "groupFinished k (filter (\<lambda>r. \<not> inherited (containerKey r)) rows) = groupFinished k rows"
proof -
  have "(\<lambda>r. \<not> inherited (containerKey r) \<and> containerKey r = k) = (\<lambda>r. containerKey r = k)"
    using assms by auto
  then show "groupTotal k (filter (\<lambda>r. \<not> inherited (containerKey r)) rows) = groupTotal k rows"
    by (simp add: groupTotal_def)
  have "(\<lambda>r. \<not> inherited (containerKey r) \<and> containerKey r = k \<and> isCompleted (getProp r ''REMARKS''))
      = (\<lambda>r. containerKey r = k \<and> isCompleted (getProp r ''REMARKS''))"
    using assms by auto
  then show "groupFinished k (filter (\<lambda>r. \<not> inherited (containerKey r)) rows) = groupFinished k rows"
    by (simp add: groupFinished_def)
qed

lemma group_sums_list:
  assumes "distinct ks" "set ks = groupKeys rows"
  shows "sum_list (map (\<lambda>k. groupTotal k rows) ks)
           = length (filter (\<lambda>r. \<not> inherited (containerKey r)) rows)"
    and "sum_list (map (\<lambda>k. groupFinished k rows) ks)
           = length (filter (\<lambda>r. \<not> inherited (containerKey r) \<and> isCompleted (getProp r ''REMARKS'')) rows)"
proof -
  let ?cr = "filter (\<lambda>r. \<not> inherited (containerKey r)) rows"
  have sub: "containerKey ` set ?cr \<subseteq> set ks" using assms(2) by (auto simp: groupKeys_def)
  have ni: "\<And>k. k \<in> set ks \<Longrightarrow> \<not> inherited k" using assms(2) by (simp add: groupKeys_def)
  have "sum_list (map (\<lambda>k. groupTotal k rows) ks) = sum_list (map (\<lambda>k. groupTotal k ?cr) ks)"
    using ni by (intro arg_cong[where f = sum_list] map_cong refl) (simp add: counted_group)
  also have "\<dots> = length ?cr"
    using sum_list_group_counts[OF assms(1) sub, of "\<lambda>r. True"] by (simp add: groupTotal_def)
  finally show "sum_list (map (\<lambda>k. groupTotal k rows) ks) = length ?cr" .
  have "sum_list (map (\<lambda>k. groupFinished k rows) ks) = sum_list (map (\<lambda>k. groupFinished k ?cr) ks)"
    using ni by (intro arg_cong[where f = sum_list] map_cong refl) (simp add: counted_group)
  also have "\<dots> = length (filter (\<lambda>r. isCompleted (getProp r ''REMARKS'')) ?cr)"
    using sum_list_group_counts[OF assms(1) sub, of "\<lambda>r. isCompleted (getProp r ''REMARKS'')"]
    by (simp add: groupFinished_def)
  also have "filter (\<lambda>r. isCompleted (getProp r ''REMARKS'')) ?cr
      = filter (\<lambda>r. \<not> inherited (containerKey r) \<and> isCompleted (getProp r ''REMARKS'')) rows"
    by (simp add: conj_commute)
  finally show "sum_list (map (\<lambda>k. groupFinished k rows) ks)
      = length (filter (\<lambda>r. \<not> inherited (containerKey r) \<and> isCompleted (getProp r ''REMARKS'')) rows)" .
qed

lemma buildAnalytics_eq:
  "buildAnalytics rows =
     map (\<lambda>k. analyticsRecord k (groupTotal k rows) (groupFinished k rows))
         (sorted_list_of_set (groupKeys rows))
     @ [analyticsRecord ''ALL'' (length (filter (\<lambda>r. \<not> inherited (containerKey r)) rows))
          (length (filter (\<lambda>r. \<not> inherited (containerKey r) \<and> isCompleted (getProp r ''REMARKS'')) rows))]"
proof -
  let ?byC = "foldl tallyRow [] rows"
  let ?ks = "sort (map fst ?byC)"
  have t: "tallied ?byC rows" by (rule tallied_foldl)
  have keys: "set (map fst ?byC) = groupKeys rows" using t by (rule tallied_keys)
  have dist: "distinct (map fst ?byC)" using t by (simp add: tallied_def)
  have ks: "?ks = sorted_list_of_set (groupKeys rows)"
    using dist keys by (metis distinct_remdups_id sorted_list_of_set_sort_remdups)
  have look: "\<And>k. k \<in> set ?ks \<Longrightarrow>
      map_of ?byC k = Some \<lparr>total = groupTotal k rows, finished = groupFinished k rows\<rparr>"
    using t keys by (simp add: tallied_def)
  have f: "foldl (emitGroup ?byC) ([], 0, 0) ?ks
     = ([] @ map (\<lambda>k. analyticsRecord k (groupTotal k rows) (groupFinished k rows)) ?ks,
        0 + sum_list (map (\<lambda>k. groupTotal k rows) ?ks),
        0 + sum_list (map (\<lambda>k. groupFinished k rows) ?ks))"
    using look by (rule foldl_emitGroup)
  have dk: "distinct ?ks" using dist by simp
  have sk: "set ?ks = groupKeys rows" using keys by simp
  note s = group_sums_list[OF dk sk]
  show ?thesis
    unfolding buildAnalytics_def Let_def f s ks[symmetric] by simp
qed

lemma buildAnalytics_all_counted:
  assumes "\<forall>r\<in>set rows. \<not> inherited (containerKey r)"
  shows "buildAnalytics rows =
     map (\<lambda>k. analyticsRecord k (groupTotal k rows) (groupFinished k rows))
         (sorted_list_of_set (containerKey ` set rows))
     @ [analyticsRecord ''ALL'' (length rows)
          (length (filter (\<lambda>r. isCompleted (getProp r ''REMARKS'')) rows))]"
proof -
  have a: "filter (\<lambda>r. \<not> inherited (containerKey r)) rows = rows" using assms by simp
  have b: "filter (\<lambda>r. \<not> inherited (containerKey r) \<and> isCompleted (getProp r ''REMARKS'')) rows
      = filter (\<lambda>r. isCompleted (getProp r ''REMARKS'')) rows"
    using assms by (intro filter_cong refl) simp
  show ?thesis unfolding buildAnalytics_eq groupKeys_all[OF assms] a b ..
qed

lemmas percentEval = percent_def dblDiv_def binExponent_def dblTimes100_def mathRound_def
  roundHalfEven_def bitLength.simps Let_def

lemma percentText_eval:
  "percentText 0 0 = ''0%''" "percentText 1 2 = ''50%''" "percentText 1 1 = ''100%''"
  "percentText 2 3 = ''67%''" "percentText 0 1 = ''0%''"
  by (simp_all add: percentText_def percentEval numEval)

lemma percentText_eval_Suc:
  "percentText (Suc 0) (Suc (Suc 0)) = ''50%''" "percentText (Suc 0) (Suc 0) = ''100%''"
  "percentText (Suc (Suc 0)) (Suc (Suc (Suc 0))) = ''67%''" "percentText 0 (Suc 0) = ''0%''"
  using percentText_eval by (simp_all add: numeral_2_eq_2 numeral_3_eq_3)

lemma isCompleted_iff:
  "isCompleted v \<longleftrightarrow> v \<noteq> JNull \<and> v \<noteq> JUndefined \<and> containsIgnoringCase ''done'' (jsString v)"
  by (simp add: isCompleted_def reDone_def searchAt_matchLit)

lemma isCompleted_eval:
  "isCompleted (JStr ''Done'')" "\<not> isCompleted (JStr [])" "\<not> isCompleted JUndefined"
  "isCompleted (JStr ''done'')" "\<not> isCompleted (JStr ''x'')"
  by (simp_all add: isCompleted_def reDone_def charEval)

lemma groupFinished_le: "groupFinished k rows \<le> groupTotal k rows"
proof -
  have "filter (\<lambda>r. containerKey r = k \<and> isCompleted (getProp r ''REMARKS'')) rows
      = filter (\<lambda>r. isCompleted (getProp r ''REMARKS'')) (filter (\<lambda>r. containerKey r = k) rows)"
    by (simp add: conj_commute)
  then show ?thesis unfolding groupFinished_def groupTotal_def by (metis length_filter_le)
qed

lemma group_sums:
  assumes "\<forall>r\<in>set rows. \<not> inherited (containerKey r)"
  shows "length rows = (\<Sum>k\<in>containerKey ` set rows. groupTotal k rows)"
    and "length (filter (\<lambda>r. isCompleted (getProp r ''REMARKS'')) rows)
     = (\<Sum>k\<in>containerKey ` set rows. groupFinished k rows)"
proof -
  let ?ks = "sorted_list_of_set (containerKey ` set rows)"
  have d: "distinct ?ks" by simp
  have s: "set ?ks = containerKey ` set rows" by simp
  then have sub: "containerKey ` set rows \<subseteq> set ?ks" by simp
  have "sum_list (map (\<lambda>k. groupTotal k rows) ?ks) = length rows"
    using sum_list_group_counts[OF d sub, of "\<lambda>r. True"] by (simp add: groupTotal_def)
  moreover have "sum_list (map (\<lambda>k. groupTotal k rows) ?ks) = (\<Sum>k\<in>set ?ks. groupTotal k rows)"
    using d by (rule sum_list_distinct_conv_sum_set)
  ultimately show "length rows = (\<Sum>k\<in>containerKey ` set rows. groupTotal k rows)"
    by (simp only: s)
  have "sum_list (map (\<lambda>k. groupFinished k rows) ?ks)
      = length (filter (\<lambda>r. isCompleted (getProp r ''REMARKS'')) rows)"
    using sum_list_group_counts[OF d sub, of "\<lambda>r. isCompleted (getProp r ''REMARKS'')"]
    by (simp add: groupFinished_def)
  moreover have "sum_list (map (\<lambda>k. groupFinished k rows) ?ks) = (\<Sum>k\<in>set ?ks. groupFinished k rows)"
    using d by (rule sum_list_distinct_conv_sum_set)
  ultimately show "length (filter (\<lambda>r. isCompleted (getProp r ''REMARKS'')) rows)
     = (\<Sum>k\<in>containerKey ` set rows. groupFinished k rows)"
    by (simp only: s)
qed

lemmas analyticsEval = buildAnalytics_def tallyRow_def containerKey_def getProp_def modifyProp_def
  emitGroup_def analyticsRecord_def inherited_def objectPrototypeKeys_def Let_def
  isCompleted_eval percentText_eval percentText_eval_Suc

lemma example_three_rows:
  "buildAnalytics
     [[(''ContainerNum'', JStr ''1''), (''REMARKS'', JStr ''Done'')],
      [(''ContainerNum'', JStr ''1''), (''REMARKS'', JStr [])],
      [(''ContainerNum'', JStr ''2''), (''REMARKS'', JStr ''Done'')]]
   = [[(''Container'', JStr ''1''), (''TotalBoxes'', JNum 2), (''Finished'', JNum 1),
       (''Remaining'', JNum 1), (''CompletionPercent'', JStr ''50%'')],
      [(''Container'', JStr ''2''), (''TotalBoxes'', JNum 1), (''Finished'', JNum 1),
       (''Remaining'', JNum 0), (''CompletionPercent'', JStr ''100%'')],
      [(''Container'', JStr ''ALL''), (''TotalBoxes'', JNum 3), (''Finished'', JNum 2),
       (''Remaining'', JNum 1), (''CompletionPercent'', JStr ''67%'')]]"
  by (simp add: analyticsEval)

lemma example_no_rows:
  "buildAnalytics []
   = [[(''Container'', JStr ''ALL''), (''TotalBoxes'', JNum 0), (''Finished'', JNum 0),
       (''Remaining'', JNum 0), (''CompletionPercent'', JStr ''0%'')]]"
  by (simp add: analyticsEval)

lemma percent_round:
  assumes "0 < t" "f \<le> t" "t \<le> 2 ^ 43" "(200 * f) mod (2 * t) \<noteq> t"
  shows "percent f t = round (100 * of_nat f / of_nat t :: rat)"
proof -
  define k where "k = percent f t"
  have n: "2 * \<bar>k * int t - 100 * int f\<bar> \<le> int t" unfolding k_def using assms(1-3) by (rule percent_nearest)
  have ne: "2 * \<bar>k * int t - 100 * int f\<bar> \<noteq> int t"
  proof
    assume e: "2 * \<bar>k * int t - 100 * int f\<bar> = int t"
    then consider "200 * int f = (2 * k - 1) * int t" | "200 * int f = (2 * k + 1) * int t"
      by (auto simp: abs_if algebra_simps split: if_splits)
    then have "(200 * int f) mod (2 * int t) = int t"
    proof cases
      case 1
      have "(2 * k - 1) * int t = int t + (k - 1) * (2 * int t)" by (simp add: algebra_simps)
      with 1 show ?thesis using assms(1) by simp
    next
      case 2
      have "(2 * k + 1) * int t = int t + k * (2 * int t)" by (simp add: algebra_simps)
      with 2 show ?thesis using assms(1) by simp
    qed
    then have "int ((200 * f) mod (2 * t)) = int t" by (simp add: zmod_int)
    with assms(4) show False by simp
  qed
  from n ne have lt: "2 * \<bar>k * int t - 100 * int f\<bar> < int t" by simp
  define T :: rat where "T = of_nat t"
  have Tpos: "0 < T" using assms by (simp add: T_def)
  have "(of_int (2 * \<bar>k * int t - 100 * int f\<bar>) :: rat) < of_int (int t)"
    using lt by (simp only: of_int_less_iff)
  then have "2 * \<bar>of_int k * T - 100 * of_nat f\<bar> < T" by (simp add: T_def)
  moreover have "of_int k * T - 100 * of_nat f = T * (of_int k - 100 * of_nat f / T)"
    using Tpos by (simp add: field_simps)
  ultimately have "2 * (T * \<bar>of_int k - 100 * of_nat f / T\<bar>) < T * 1"
    using Tpos by (simp add: abs_mult)
  then have "T * (2 * \<bar>of_int k - 100 * of_nat f / T\<bar>) < T * 1" by (simp only: mult.left_commute)
  then have "2 * \<bar>of_int k - 100 * of_nat f / T\<bar> < 1" using Tpos by (simp only: mult_less_cancel_left_pos)
  then have "\<bar>of_int k - 100 * of_nat f / T\<bar> < 1 / 2" by simp
  then have "\<bar>100 * of_nat f / T - of_int k\<bar> < 1 / 2" by (simp only: abs_minus_commute)
  then have "round (100 * of_nat f / T) = k" by (rule round_unique')
  then show ?thesis by (simp add: k_def T_def)
qed

lemma percent_bounds:
  assumes "f \<le> t" "t \<le> 2 ^ 43"
  shows "0 \<le> percent f t \<and> percent f t \<le> 100"
proof (cases "t = 0")
  case True
  then show ?thesis by (simp add: percent_def)
next
  case False
  then have tp: "0 < t" by simp
  define p where "p = percent f t"
  define T where "T = int t"
  define F where "F = int f"
  have T: "0 < T" and F: "0 \<le> F" "F \<le> T" using tp assms(1) by (simp_all add: T_def F_def)
  define X where "X = p * T"
  have n: "2 * \<bar>X - 100 * F\<bar> \<le> T"
    unfolding X_def p_def T_def F_def using tp assms by (rule percent_nearest)
  then have b: "2 * X \<le> 200 * F + T" "200 * F \<le> 2 * X + T"
    by (simp_all add: abs_if split: if_splits)
  have up: "p \<le> 100"
  proof (rule ccontr)
    assume "\<not> p \<le> 100"
    then have "101 \<le> p" by simp
    then have "101 * T \<le> X" unfolding X_def using T by (intro mult_right_mono) simp_all
    then show False using b F T by linarith
  qed
  have lo: "0 \<le> p"
  proof (rule ccontr)
    assume "\<not> 0 \<le> p"
    then have "p \<le> - 1" by simp
    then have "X \<le> (- 1) * T" unfolding X_def using T by (intro mult_right_mono) simp_all
    then show False using b F T by linarith
  qed
  show ?thesis using lo up by (simp add: p_def)
qed

lemma percentText_23_40: "percentText 23 40 = ''57%''"
proof -
  have "percent 23 40 = 57" by (simp add: percentEval)
  then show ?thesis by (simp add: percentText_def numEval)
qed

text \<open>
  Claim C1 as stated fails at the percentage. Of 40 rows of one container 23 are finished:
  \<^verbatim>\<open>23 / 40\<close> is a double just below 0.575, its product with 100 is just below 57.5 and
  \<^verbatim>\<open>Math.round\<close> gives 57, where \<open>100 * 23 / 40 = 57.5\<close> rounds to 58.
\<close>

theorem buildAnalytics_tie_rounds_down:
  "buildAnalytics
     (replicate 23 [(''ContainerNum'', JStr ''1''), (''REMARKS'', JStr ''Done'')]
      @ replicate 17 [(''ContainerNum'', JStr ''1''), (''REMARKS'', JStr [])])
   = [[(''Container'', JStr ''1''), (''TotalBoxes'', JNum 40), (''Finished'', JNum 23),
       (''Remaining'', JNum 17), (''CompletionPercent'', JStr ''57%'')],
      [(''Container'', JStr ''ALL''), (''TotalBoxes'', JNum 40), (''Finished'', JNum 23),
       (''Remaining'', JNum 17), (''CompletionPercent'', JStr ''57%'')]]
   \<and> round (100 * 23 / 40 :: rat) = 58"
proof -
  let ?d = "[(''ContainerNum'', JStr ''1''), (''REMARKS'', JStr ''Done'')]"
  let ?n = "[(''ContainerNum'', JStr ''1''), (''REMARKS'', JStr [])]"
  let ?rows = "replicate 23 ?d @ replicate 17 ?n"
  have k: "containerKey ?d = ''1''" "containerKey ?n = ''1''"
    by (simp_all add: containerKey_def getProp_def)
  have c: "isCompleted (getProp ?d ''REMARKS'')" "\<not> isCompleted (getProp ?n ''REMARKS'')"
    by (simp_all add: getProp_def isCompleted_eval)
  have ni: "\<not> inherited ''1''" by (simp add: inherited_def objectPrototypeKeys_def)
  have own: "\<forall>r\<in>set ?rows. \<not> inherited (containerKey r)" using k ni by auto
  have keys: "containerKey ` set ?rows = {''1''}" using k by auto
  have t: "groupTotal ''1'' ?rows = 40" by (simp add: groupTotal_def k)
  have f: "groupFinished ''1'' ?rows = 23" by (simp add: groupFinished_def k c)
  have l: "length ?rows = 40" by simp
  have fl: "length (filter (\<lambda>r. isCompleted (getProp r ''REMARKS'')) ?rows) = 23"
    using c by simp
  have b: "round (100 * 23 / 40 :: rat) = 58" by (simp add: round_def)
  have "buildAnalytics ?rows = [analyticsRecord ''1'' 40 23, analyticsRecord ''ALL'' 40 23]"
    unfolding buildAnalytics_all_counted[OF own] keys l fl by (simp add: t f)
  then show ?thesis using b by (simp add: analyticsRecord_def percentText_23_40)
qed

text \<open>
  Claim C1, amended. Let no row have, as its group key \<^verbatim>\<open>String(r.ContainerNum ?? "NA")\<close>,
  the name of a member every object inherits (\<^verbatim>\<open>constructor\<close>, \<^verbatim>\<open>toString\<close> and the
  like). Then \<^const>\<open>buildAnalytics\<close> emits one record for each distinct group key, in the
  lexicographic order of the keys, and then one record \<^verbatim>\<open>ALL\<close> whose counts are the sums of
  the groups' counts, which are the number of rows and the number of finished rows. A row is
  finished if and only if its remark is neither null nor undefined and contains \<^verbatim>\<open>done\<close>, in
  any case. A record holds the total, the finished count, their difference and the
  percentage followed by \<^verbatim>\<open>%\<close>. The percentage is 0 for a total of 0; up to \<open>2\<^sup>4\<^sup>3\<close>
  rows it is an integer nearest to \<open>100 * finished / total\<close>, and it is that quotient
  rounded unless the quotient lies exactly halfway between two integers. The three rows
  with \<^verbatim>\<open>ContainerNum\<close> 1, 1, 2 and remarks \<^verbatim>\<open>Done\<close>, empty, \<^verbatim>\<open>Done\<close> give the records of
  the specification, and no rows give the record \<^verbatim>\<open>ALL\<close> alone, with 0, 0 and \<^verbatim>\<open>0%\<close>.
\<close>

theorem buildAnalytics_rollup:
  "((\<forall>r\<in>set rows. containerKey r \<notin> set objectPrototypeKeys) \<longrightarrow>
      buildAnalytics rows =
        map (\<lambda>k. analyticsRecord k (groupTotal k rows) (groupFinished k rows))
            (sorted_list_of_set (containerKey ` set rows))
        @ [analyticsRecord ''ALL'' (length rows)
             (length (filter (\<lambda>r. isCompleted (getProp r ''REMARKS'')) rows))]
      \<and> length rows = (\<Sum>k\<in>containerKey ` set rows. groupTotal k rows)
      \<and> length (filter (\<lambda>r. isCompleted (getProp r ''REMARKS'')) rows)
          = (\<Sum>k\<in>containerKey ` set rows. groupFinished k rows))
   \<and> groupTotal k rows = length (filter (\<lambda>r. containerKey r = k) rows)
   \<and> groupFinished k rows
       = length (filter (\<lambda>r. containerKey r = k \<and> isCompleted (getProp r ''REMARKS'')) rows)
   \<and> groupFinished k rows \<le> groupTotal k rows \<and> groupTotal k rows \<le> length rows
   \<and> containerKey r = jsString (coalesce (getProp r ''ContainerNum'') (JStr ''NA''))
   \<and> (isCompleted v \<longleftrightarrow> v \<noteq> JNull \<and> v \<noteq> JUndefined \<and> containsIgnoringCase ''done'' (jsString v))
   \<and> (f \<le> t \<and> t \<le> 2 ^ 43 \<longrightarrow>
        analyticsRecord k t f =
          [(''Container'', JStr k), (''TotalBoxes'', JNum (int t)), (''Finished'', JNum (int f)),
           (''Remaining'', JNum (int t - int f)),
           (''CompletionPercent'', JStr (numToString (percent f t) @ ''%''))]
        \<and> 0 \<le> percent f t \<and> percent f t \<le> 100)
   \<and> percent f 0 = 0
   \<and> (0 < t \<and> f \<le> t \<and> t \<le> 2 ^ 43 \<longrightarrow> 2 * \<bar>percent f t * int t - 100 * int f\<bar> \<le> int t)
   \<and> (0 < t \<and> f \<le> t \<and> t \<le> 2 ^ 43 \<and> (200 * f) mod (2 * t) \<noteq> t
        \<longrightarrow> percent f t = round (100 * of_nat f / of_nat t :: rat))
   \<and> buildAnalytics
        [[(''ContainerNum'', JStr ''1''), (''REMARKS'', JStr ''Done'')],
         [(''ContainerNum'', JStr ''1''), (''REMARKS'', JStr [])],
         [(''ContainerNum'', JStr ''2''), (''REMARKS'', JStr ''Done'')]]
      = [[(''Container'', JStr ''1''), (''TotalBoxes'', JNum 2), (''Finished'', JNum 1),
          (''Remaining'', JNum 1), (''CompletionPercent'', JStr ''50%'')],
         [(''Container'', JStr ''2''), (''TotalBoxes'', JNum 1), (''Finished'', JNum 1),
          (''Remaining'', JNum 0), (''CompletionPercent'', JStr ''100%'')],
         [(''Container'', JStr ''ALL''), (''TotalBoxes'', JNum 3), (''Finished'', JNum 2),
          (''Remaining'', JNum 1), (''CompletionPercent'', JStr ''67%'')]]
   \<and> buildAnalytics []
      = [[(''Container'', JStr ''ALL''), (''TotalBoxes'', JNum 0), (''Finished'', JNum 0),
          (''Remaining'', JNum 0), (''CompletionPercent'', JStr ''0%'')]]"
proof -
  have roll: "(\<forall>r\<in>set rows. containerKey r \<notin> set objectPrototypeKeys) \<longrightarrow>
      buildAnalytics rows =
        map (\<lambda>k. analyticsRecord k (groupTotal k rows) (groupFinished k rows))
            (sorted_list_of_set (containerKey ` set rows))
        @ [analyticsRecord ''ALL'' (length rows)
             (length (filter (\<lambda>r. isCompleted (getProp r ''REMARKS'')) rows))]
      \<and> length rows = (\<Sum>k\<in>containerKey ` set rows. groupTotal k rows)
      \<and> length (filter (\<lambda>r. isCompleted (getProp r ''REMARKS'')) rows)
          = (\<Sum>k\<in>containerKey ` set rows. groupFinished k rows)"
  proof
    assume "\<forall>r\<in>set rows. containerKey r \<notin> set objectPrototypeKeys"
    then have own: "\<forall>r\<in>set rows. \<not> inherited (containerKey r)" by (simp add: inherited_def)
    show "buildAnalytics rows =
        map (\<lambda>k. analyticsRecord k (groupTotal k rows) (groupFinished k rows))
            (sorted_list_of_set (containerKey ` set rows))
        @ [analyticsRecord ''ALL'' (length rows)
             (length (filter (\<lambda>r. isCompleted (getProp r ''REMARKS'')) rows))]
      \<and> length rows = (\<Sum>k\<in>containerKey ` set rows. groupTotal k rows)
      \<and> length (filter (\<lambda>r. isCompleted (getProp r ''REMARKS'')) rows)
          = (\<Sum>k\<in>containerKey ` set rows. groupFinished k rows)"
      using buildAnalytics_all_counted[OF own] group_sums[OF own] by (intro conjI)
  qed
  have p0: "percent f 0 = 0" by (simp add: percent_def)
  have rec: "f \<le> t \<and> t \<le> 2 ^ 43 \<longrightarrow>
        analyticsRecord k t f =
          [(''Container'', JStr k), (''TotalBoxes'', JNum (int t)), (''Finished'', JNum (int f)),
           (''Remaining'', JNum (int t - int f)),
           (''CompletionPercent'', JStr (numToString (percent f t) @ ''%''))]
        \<and> 0 \<le> percent f t \<and> percent f t \<le> 100"
    using percent_bounds[of f t] by (simp add: analyticsRecord_def percentText_def)
  have near: "0 < t \<and> f \<le> t \<and> t \<le> 2 ^ 43 \<longrightarrow> 2 * \<bar>percent f t * int t - 100 * int f\<bar> \<le> int t"
    using percent_nearest by blast
  have rnd: "0 < t \<and> f \<le> t \<and> t \<le> 2 ^ 43 \<and> (200 * f) mod (2 * t) \<noteq> t
        \<longrightarrow> percent f t = round (100 * of_nat f / of_nat t :: rat)"
    using percent_round by blast
  have le: "groupTotal k rows \<le> length rows" by (simp add: groupTotal_def)
  show ?thesis
    using roll groupTotal_def[of k rows] groupFinished_def[of k rows] groupFinished_le[of k rows] le
      containerKey_def[of r] isCompleted_iff[of v] rec p0 near rnd example_three_rows example_no_rows
    by (intro conjI)
qed

text \<open>The three rows of the example, and the percentage of 2 finished rows of 3.\<close>

theorem buildAnalytics_rollup_witness:
  "list_all (\<lambda>r. containerKey r \<notin> set objectPrototypeKeys)
     [[(''ContainerNum'', JStr ''1''), (''REMARKS'', JStr ''Done'')],
      [(''ContainerNum'', JStr ''1''), (''REMARKS'', JStr [])],
      [(''ContainerNum'', JStr ''2''), (''REMARKS'', JStr ''Done'')]]
   \<and> (3::nat) = (\<Sum>k\<in>{''1'', ''2''}. groupTotal k
        [[(''ContainerNum'', JStr ''1''), (''REMARKS'', JStr ''Done'')],
         [(''ContainerNum'', JStr ''1''), (''REMARKS'', JStr [])],
         [(''ContainerNum'', JStr ''2''), (''REMARKS'', JStr ''Done'')]])
   \<and> (0::nat) < 3 \<and> (2::nat) \<le> 3 \<and> (3::nat) \<le> 2 ^ 43 \<and> (200 * 2) mod (2 * 3) \<noteq> (3::nat)
   \<and> 2 * \<bar>percent 2 3 * int 3 - 100 * int 2\<bar> \<le> int 3
   \<and> percent 2 3 = round (100 * of_nat 2 / of_nat 3 :: rat)
   \<and> analyticsRecord ''ALL'' 3 2 =
       [(''Container'', JStr ''ALL''), (''TotalBoxes'', JNum 3), (''Finished'', JNum 2),
        (''Remaining'', JNum 1), (''CompletionPercent'', JStr ''67%'')]"
proof -
  let ?rows = "[[(''ContainerNum'', JStr ''1''), (''REMARKS'', JStr ''Done'')],
      [(''ContainerNum'', JStr ''1''), (''REMARKS'', JStr [])],
      [(''ContainerNum'', JStr ''2''), (''REMARKS'', JStr ''Done'')]]"
  have k: "map containerKey ?rows = [''1'', ''1'', ''2'']"
    by (simp add: containerKey_def getProp_def)
  have ks: "containerKey ` set ?rows = {''1'', ''2''}"
    using arg_cong[OF k, of set] by (simp only: set_map) simp
  have own: "\<forall>r\<in>set ?rows. containerKey r \<notin> set objectPrototypeKeys"
    by (simp add: containerKey_def getProp_def objectPrototypeKeys_def)
  have h: "(0::nat) < 3 \<and> (2::nat) \<le> 3 \<and> (3::nat) \<le> 2 ^ 43" by simp
  have h1: "(0::nat) < 3" and h2: "(2::nat) \<le> 3" and h3: "(3::nat) \<le> 2 ^ 43" by simp_all
  have n: "(200 * 2) mod (2 * 3) \<noteq> (3::nat)" by simp
  note t = buildAnalytics_rollup[of ?rows "''ALL''" "[]" JNull 2 3]
  have t1: "length ?rows = (\<Sum>k\<in>containerKey ` set ?rows. groupTotal k ?rows)"
    using t own by blast
  have t2: "2 * \<bar>percent 2 3 * int 3 - 100 * int 2\<bar> \<le> int 3" using t h by blast
  have t3: "percent 2 3 = round (100 * of_nat 2 / of_nat 3 :: rat)" using t h n by blast
  have l: "length ?rows = 3" by simp
  have s: "(3::nat) = (\<Sum>k\<in>{''1'', ''2''}. groupTotal k ?rows)" using t1 unfolding ks l .
  have w: "list_all (\<lambda>r. containerKey r \<notin> set objectPrototypeKeys) ?rows"
    using own unfolding list_all_iff .
  have t4: "analyticsRecord ''ALL'' 3 2 =
          [(''Container'', JStr ''ALL''), (''TotalBoxes'', JNum (int 3)), (''Finished'', JNum (int 2)),
           (''Remaining'', JNum (int 3 - int 2)),
           (''CompletionPercent'', JStr (numToString (percent 2 3) @ ''%''))]"
    using t h by blast
  have pt: "numToString (percent 2 3) @ ''%'' = ''67%''"
    using percentText_eval(4) by (simp only: percentText_def)
  have t5: "analyticsRecord ''ALL'' 3 2 =
       [(''Container'', JStr ''ALL''), (''TotalBoxes'', JNum 3), (''Finished'', JNum 2),
        (''Remaining'', JNum 1), (''CompletionPercent'', JStr ''67%'')]"
    unfolding t4 pt by simp
  show ?thesis using w s h1 h2 h3 n t2 t3 t5 by (intro conjI)
qed

lemma containerKey_cases:
  "containerKey r = (case getProp r ''ContainerNum'' of JUndefined \<Rightarrow> ''NA'' | JNull \<Rightarrow> ''NA''
     | v \<Rightarrow> jsString v)"
  by (cases "getProp r ''ContainerNum''") (simp_all add: containerKey_def)

lemma NA_not_inherited: "\<not> inherited ''NA''"
  by (simp add: inherited_def objectPrototypeKeys_def)

lemma group_record_present:
  assumes "r \<in> set rows" "\<not> inherited (containerKey r)"
  shows "analyticsRecord (containerKey r) (groupTotal (containerKey r) rows)
           (groupFinished (containerKey r) rows) \<in> set (buildAnalytics rows)"
    and "1 \<le> groupTotal (containerKey r) rows"
proof -
  have "containerKey r \<in> groupKeys rows" using assms by (simp add: groupKeys_def)
  then have "containerKey r \<in> set (sorted_list_of_set (groupKeys rows))"
    using groupKeys_finite by simp
  then show "analyticsRecord (containerKey r) (groupTotal (containerKey r) rows)
           (groupFinished (containerKey r) rows) \<in> set (buildAnalytics rows)"
    unfolding buildAnalytics_eq by (simp only: set_append set_map) blast
  have "r \<in> set (filter (\<lambda>x. containerKey x = containerKey r) rows)" using assms by simp
  then have "filter (\<lambda>x. containerKey x = containerKey r) rows \<noteq> []"
    by (metis empty_iff empty_set)
  then have "0 < length (filter (\<lambda>x. containerKey x = containerKey r) rows)"
    by (rule length_greater_0_conv[THEN iffD2])
  then show "1 \<le> groupTotal (containerKey r) rows"
    unfolding groupTotal_def by (simp only: One_nat_def Suc_le_eq)
qed

lemma setValues_foldl:
  "set (foldl (\<lambda>acc x. if x \<in> set acc then acc else acc @ [x]) acc0 xs) = set acc0 \<union> set xs
   \<and> (distinct acc0 \<longrightarrow> distinct (foldl (\<lambda>acc x. if x \<in> set acc then acc else acc @ [x]) acc0 xs))"
  by (induction xs arbitrary: acc0) auto

lemma set_setValues: "set (setValues xs) = set xs"
  using setValues_foldl[of "[]" xs] by (simp add: setValues_def)

lemma distinct_setValues: "distinct (setValues xs)"
  using setValues_foldl[of "[]" xs] by (simp add: setValues_def)

lemma set_factories:
  "set (factories rows) = (\<lambda>r. orElse (getProp r ''Factory'') (JStr ''UNKNOWN'')) ` set rows"
  by (simp add: factories_def set_setValues)

lemma factories_unknown:
  assumes "r \<in> set rows" "\<not> truthy (getProp r ''Factory'')"
  shows "JStr ''UNKNOWN'' \<in> set (factories rows)"
proof -
  have "orElse (getProp r ''Factory'') (JStr ''UNKNOWN'') = JStr ''UNKNOWN''"
    using assms(2) by (simp add: orElse_def)
  then show ?thesis unfolding set_factories using assms(1) by force
qed

lemma factories_own:
  assumes "r \<in> set rows" "truthy (getProp r ''Factory'')"
  shows "getProp r ''Factory'' \<in> set (factories rows)"
proof -
  have "orElse (getProp r ''Factory'') (JStr ''UNKNOWN'') = getProp r ''Factory''"
    using assms(2) by (simp add: orElse_def)
  then show ?thesis unfolding set_factories using assms(1) by force
qed

lemma factories_truthy: "fac \<in> set (factories rows) \<Longrightarrow> truthy fac"
  unfolding set_factories by (auto simp: orElse_def)

text \<open>
  Claim C7 as stated fails: a row whose \<^verbatim>\<open>ContainerNum\<close> is the empty string is counted under
  the empty key, and the rollup has no record \<^verbatim>\<open>NA\<close>.
\<close>

theorem blank_container_is_not_NA:
  "getProp [(''ContainerNum'', JStr []), (''REMARKS'', JStr ''Done'')] ''ContainerNum'' = JStr []
   \<and> buildAnalytics [[(''ContainerNum'', JStr []), (''REMARKS'', JStr ''Done'')]]
      = [[(''Container'', JStr []), (''TotalBoxes'', JNum 1), (''Finished'', JNum 1),
          (''Remaining'', JNum 0), (''CompletionPercent'', JStr ''100%'')],
         [(''Container'', JStr ''ALL''), (''TotalBoxes'', JNum 1), (''Finished'', JNum 1),
          (''Remaining'', JNum 0), (''CompletionPercent'', JStr ''100%'')]]"
  by (simp add: analyticsEval)

text \<open>
  Claim C7, amended. A row whose \<^verbatim>\<open>ContainerNum\<close> is missing (undefined or null) has the group
  key \<^verbatim>\<open>NA\<close>; a row with any other value, the empty string too, has that value as a string,
  so a blank \<^verbatim>\<open>ContainerNum\<close> gives the empty key. For every sequence of rows and every row
  of it with a missing \<^verbatim>\<open>ContainerNum\<close>, the container rollup has the record \<^verbatim>\<open>NA\<close>, which
  counts that row; the same holds of the record of any row's key that is not the name of a
  member every object inherits. The factory labels are the values
  \<^verbatim>\<open>r.Factory || "UNKNOWN"\<close> of the rows, each once: a row whose \<^verbatim>\<open>Factory\<close> is missing or
  blank is listed as \<^verbatim>\<open>UNKNOWN\<close>, every other row as its \<^verbatim>\<open>Factory\<close> value.
\<close>

theorem group_key_sentinels:
  "(getProp r ''ContainerNum'' = JUndefined \<or> getProp r ''ContainerNum'' = JNull
      \<longrightarrow> containerKey r = ''NA'')
   \<and> (getProp r ''ContainerNum'' \<noteq> JUndefined \<and> getProp r ''ContainerNum'' \<noteq> JNull
      \<longrightarrow> containerKey r = jsString (getProp r ''ContainerNum''))
   \<and> (getProp r ''ContainerNum'' = JStr [] \<longrightarrow> containerKey r = [])
   \<and> (r \<in> set rows \<and> (getProp r ''ContainerNum'' = JUndefined \<or> getProp r ''ContainerNum'' = JNull)
      \<longrightarrow> analyticsRecord ''NA'' (groupTotal ''NA'' rows) (groupFinished ''NA'' rows)
            \<in> set (buildAnalytics rows)
          \<and> r \<in> set (filter (\<lambda>x. containerKey x = ''NA'') rows)
          \<and> 1 \<le> groupTotal ''NA'' rows)
   \<and> (r \<in> set rows \<and> containerKey r \<notin> set objectPrototypeKeys
      \<longrightarrow> analyticsRecord (containerKey r) (groupTotal (containerKey r) rows)
            (groupFinished (containerKey r) rows) \<in> set (buildAnalytics rows)
          \<and> 1 \<le> groupTotal (containerKey r) rows)
   \<and> groupTotal k rows = length (filter (\<lambda>x. containerKey x = k) rows)
   \<and> set (factories rows) = (\<lambda>x. orElse (getProp x ''Factory'') (JStr ''UNKNOWN'')) ` set rows
   \<and> distinct (factories rows)
   \<and> (r \<in> set rows \<and> (getProp r ''Factory'' = JUndefined \<or> getProp r ''Factory'' = JNull
                        \<or> getProp r ''Factory'' = JStr [])
      \<longrightarrow> JStr ''UNKNOWN'' \<in> set (factories rows))
   \<and> (r \<in> set rows \<and> truthy (getProp r ''Factory'')
      \<longrightarrow> getProp r ''Factory'' \<in> set (factories rows))
   \<and> (truthy v \<longleftrightarrow> v \<noteq> JUndefined \<and> v \<noteq> JNull \<and> v \<noteq> JStr [] \<and> v \<noteq> JNum 0)"
proof -
  have 1: "getProp r ''ContainerNum'' = JUndefined \<or> getProp r ''ContainerNum'' = JNull
      \<longrightarrow> containerKey r = ''NA''"
    using containerKey_cases[of r] by auto
  have 2: "getProp r ''ContainerNum'' \<noteq> JUndefined \<and> getProp r ''ContainerNum'' \<noteq> JNull
      \<longrightarrow> containerKey r = jsString (getProp r ''ContainerNum'')"
    by (cases "getProp r ''ContainerNum''") (simp_all add: containerKey_def)
  have 3: "getProp r ''ContainerNum'' = JStr [] \<longrightarrow> containerKey r = []"
    by (simp add: containerKey_def)
  have 4: "r \<in> set rows \<and> (getProp r ''ContainerNum'' = JUndefined \<or> getProp r ''ContainerNum'' = JNull)
      \<longrightarrow> analyticsRecord ''NA'' (groupTotal ''NA'' rows) (groupFinished ''NA'' rows)
            \<in> set (buildAnalytics rows)
          \<and> r \<in> set (filter (\<lambda>x. containerKey x = ''NA'') rows)
          \<and> 1 \<le> groupTotal ''NA'' rows"
  proof
    assume h: "r \<in> set rows \<and> (getProp r ''ContainerNum'' = JUndefined \<or> getProp r ''ContainerNum'' = JNull)"
    then have k: "containerKey r = ''NA''" using 1 by simp
    then have "\<not> inherited (containerKey r)" using NA_not_inherited by simp
    with h have "analyticsRecord (containerKey r) (groupTotal (containerKey r) rows)
           (groupFinished (containerKey r) rows) \<in> set (buildAnalytics rows)"
      and "1 \<le> groupTotal (containerKey r) rows"
      using group_record_present by blast+
    then show "analyticsRecord ''NA'' (groupTotal ''NA'' rows) (groupFinished ''NA'' rows)
            \<in> set (buildAnalytics rows)
          \<and> r \<in> set (filter (\<lambda>x. containerKey x = ''NA'') rows)
          \<and> 1 \<le> groupTotal ''NA'' rows"
      using h k by simp
  qed
  have 5: "r \<in> set rows \<and> containerKey r \<notin> set objectPrototypeKeys
      \<longrightarrow> analyticsRecord (containerKey r) (groupTotal (containerKey r) rows)
            (groupFinished (containerKey r) rows) \<in> set (buildAnalytics rows)
          \<and> 1 \<le> groupTotal (containerKey r) rows"
    using group_record_present[of r rows] by (simp add: inherited_def)
  have 6: "groupTotal k rows = length (filter (\<lambda>x. containerKey x = k) rows)"
    by (simp add: groupTotal_def)
  have 7: "r \<in> set rows \<and> (getProp r ''Factory'' = JUndefined \<or> getProp r ''Factory'' = JNull
                        \<or> getProp r ''Factory'' = JStr [])
      \<longrightarrow> JStr ''UNKNOWN'' \<in> set (factories rows)"
    using factories_unknown[of r rows] by auto
  have 8: "r \<in> set rows \<and> truthy (getProp r ''Factory'')
      \<longrightarrow> getProp r ''Factory'' \<in> set (factories rows)"
    using factories_own[of r rows] by simp
  have 9: "truthy v \<longleftrightarrow> v \<noteq> JUndefined \<and> v \<noteq> JNull \<and> v \<noteq> JStr [] \<and> v \<noteq> JNum 0"
    by (cases v) simp_all
  have d: "distinct (factories rows)" by (simp add: factories_def distinct_setValues)
  show ?thesis using 1 2 3 4 5 6 set_factories[of rows] d 7 8 9 by (intro conjI)
qed

text \<open>A row that has neither \<^verbatim>\<open>ContainerNum\<close> nor \<^verbatim>\<open>Factory\<close>, and a row that has both.\<close>

theorem group_key_sentinels_witness:
  "getProp [(''REMARKS'', JStr ''Done'')] ''ContainerNum'' = JUndefined
   \<and> containerKey [(''REMARKS'', JStr ''Done'')] = ''NA''
   \<and> [(''REMARKS'', JStr ''Done'')]
       \<in> set [[(''REMARKS'', JStr ''Done'')], [(''ContainerNum'', JStr ''7''), (''Factory'', JStr ''F100'')]]
   \<and> [(''Container'', JStr ''NA''), (''TotalBoxes'', JNum 1), (''Finished'', JNum 1),
       (''Remaining'', JNum 0), (''CompletionPercent'', JStr ''100%'')]
      \<in> set (buildAnalytics
           [[(''REMARKS'', JStr ''Done'')], [(''ContainerNum'', JStr ''7''), (''Factory'', JStr ''F100'')]])
   \<and> getProp [(''REMARKS'', JStr ''Done'')] ''Factory'' = JUndefined
   \<and> JStr ''UNKNOWN''
      \<in> set (factories
           [[(''REMARKS'', JStr ''Done'')], [(''ContainerNum'', JStr ''7''), (''Factory'', JStr ''F100'')]])
   \<and> getProp [(''ContainerNum'', JStr ''7''), (''Factory'', JStr ''F100'')] ''ContainerNum'' = JStr ''7''
   \<and> containerKey [(''ContainerNum'', JStr ''7''), (''Factory'', JStr ''F100'')] = ''7''
   \<and> ''7'' \<notin> set objectPrototypeKeys
   \<and> truthy (getProp [(''ContainerNum'', JStr ''7''), (''Factory'', JStr ''F100'')] ''Factory'')
   \<and> JStr ''F100''
      \<in> set (factories
           [[(''REMARKS'', JStr ''Done'')], [(''ContainerNum'', JStr ''7''), (''Factory'', JStr ''F100'')]])"
proof -
  let ?r = "[(''REMARKS'', JStr ''Done'')]"
  let ?q = "[(''ContainerNum'', JStr ''7''), (''Factory'', JStr ''F100'')]"
  let ?rows = "[?r, ?q]"
  have a: "getProp ?r ''ContainerNum'' = JUndefined" by (simp add: getProp_def)
  have b: "getProp ?r ''Factory'' = JUndefined" by (simp add: getProp_def)
  have c: "?r \<in> set ?rows" by simp
  have a': "getProp ?q ''ContainerNum'' = JStr ''7''" by (simp add: getProp_def)
  have b': "getProp ?q ''Factory'' = JStr ''F100''" by (simp add: getProp_def)
  have tq: "truthy (getProp ?q ''Factory'')" by (simp add: b')
  have c': "?q \<in> set ?rows" by simp
  have p: "''7'' \<notin> set objectPrototypeKeys" by (simp add: objectPrototypeKeys_def)
  note t = group_key_sentinels[of ?r ?rows]
  note t' = group_key_sentinels[of ?q ?rows]
  have k: "containerKey ?r = ''NA''" using t a by blast
  have g: "analyticsRecord ''NA'' (groupTotal ''NA'' ?rows) (groupFinished ''NA'' ?rows)
            \<in> set (buildAnalytics ?rows)"
    using t a c by blast
  have u: "JStr ''UNKNOWN'' \<in> set (factories ?rows)" using t b c by blast
  have k': "containerKey ?q = jsString (getProp ?q ''ContainerNum'')" using t' a' by simp
  then have k'': "containerKey ?q = ''7''" unfolding a' by simp
  have u': "getProp ?q ''Factory'' \<in> set (factories ?rows)" using t' tq c' by blast
  then have u'': "JStr ''F100'' \<in> set (factories ?rows)" unfolding b' .
  have gt: "groupTotal ''NA'' ?rows = 1" by (simp add: groupTotal_def k k'')
  have gf: "groupFinished ''NA'' ?rows = 1"
    by (simp add: groupFinished_def k k'' getProp_def isCompleted_eval)
  have rec: "analyticsRecord ''NA'' 1 1
      = [(''Container'', JStr ''NA''), (''TotalBoxes'', JNum 1), (''Finished'', JNum 1),
         (''Remaining'', JNum 0), (''CompletionPercent'', JStr ''100%'')]"
    by (simp add: analyticsRecord_def percentText_eval percentText_eval_Suc)
  from g have g': "[(''Container'', JStr ''NA''), (''TotalBoxes'', JNum 1), (''Finished'', JNum 1),
       (''Remaining'', JNum 0), (''CompletionPercent'', JStr ''100%'')] \<in> set (buildAnalytics ?rows)"
    unfolding gt gf rec .
  show ?thesis using a k c g' b u a' k'' p tq u'' by (intro conjI)
qed










lemma sheetName_prefix: "sheetName fac = ''Analytics_'' @ filter isWordChar (jsString fac)"
  by (simp add: sheetName_def charEval)

lemma sheetName_unknown: "sheetName (JStr ''UNKNOWN'') = ''Analytics_UNKNOWN''"
  by (simp add: sheetName_def charEval)

lemma sheetName_not_fixed:
  "sheetName fac \<noteq> ''Data''" "sheetName fac \<noteq> ''Analytics''" "sheetName fac \<noteq> ''Summary''"
  by (simp_all add: sheetName_prefix)

lemma andThen_Inr: "andThen (Inr wb) f = f wb"
  by (simp add: andThen_def)

lemma andThen_Inl: "andThen (Inl e) f = Inl e"
  by (simp add: andThen_def)

lemma book_append_sheet_ok:
  assumes "length wb < 65535" "length name \<le> 31" "name \<notin> fst ` set wb"
  shows "book_append_sheet wb ws name = Inr (wb @ [(name, ws)])"
  using assms by (simp add: book_append_sheet_def)

lemma append_factory_sheets_ok:
  assumes "distinct (map sheetName facs)"
    and "\<forall>fac\<in>set facs. length (sheetName fac) \<le> 31 \<and> sheetName fac \<notin> fst ` set wb"
    and "length wb + length facs \<le> 65535"
  shows "foldl (\<lambda>x fac. andThen x (\<lambda>wb. book_append_sheet wb (snd (factorySheet rows fac))
                                          (fst (factorySheet rows fac))))
           (Inr wb) facs
         = Inr (wb @ map (factorySheet rows) facs)"
  using assms
proof (induction facs arbitrary: wb)
  case Nil
  show ?case by simp
next
  case (Cons fac facs)
  have n: "fst (factorySheet rows fac) = sheetName fac" by (simp add: factorySheet_def)
  have "book_append_sheet wb (snd (factorySheet rows fac)) (fst (factorySheet rows fac))
      = Inr (wb @ [(fst (factorySheet rows fac), snd (factorySheet rows fac))])"
    using Cons.prems by (intro book_append_sheet_ok) (simp_all add: n)
  then have step: "andThen (Inr wb) (\<lambda>wb. book_append_sheet wb (snd (factorySheet rows fac))
                                          (fst (factorySheet rows fac)))
      = Inr (wb @ [factorySheet rows fac])"
    by (simp add: andThen_def)
  have d: "distinct (map sheetName facs)" using Cons.prems(1) by simp
  have f: "\<forall>fac'\<in>set facs. length (sheetName fac') \<le> 31
       \<and> sheetName fac' \<notin> fst ` set (wb @ [factorySheet rows fac])"
  proof
    fix fac' assume m: "fac' \<in> set facs"
    from Cons.prems(1) have "sheetName fac \<notin> sheetName ` set facs" by simp
    then have "sheetName fac' \<noteq> sheetName fac" using m by (metis imageI)
    then show "length (sheetName fac') \<le> 31
       \<and> sheetName fac' \<notin> fst ` set (wb @ [factorySheet rows fac])"
      using Cons.prems(2) m by (simp add: n)
  qed
  have l: "length (wb @ [factorySheet rows fac]) + length facs \<le> 65535"
    using Cons.prems(3) by simp
  show ?case using Cons.IH[OF d f l] step by simp
qed

lemma export_ok:
  assumes "distinct (map sheetName (factories rows))"
    and "\<forall>fac\<in>set (factories rows). length (sheetName fac) \<le> 31"
    and "length (factories rows) \<le> 65532"
  shows "exportWorkbookWithAnalytics rows
     = Inr ([(''Data'', map dataRow rows), (''Analytics'', buildAnalytics rows)]
            @ map (factorySheet rows) (factories rows)
            @ [(''Summary'', buildSummarySheet rows)])"
proof -
  let ?wb2 = "[(''Data'', map dataRow rows), (''Analytics'', buildAnalytics rows)]"
  have 1: "book_append_sheet [] (map dataRow rows) ''Data'' = Inr [(''Data'', map dataRow rows)]"
    by (simp add: book_append_sheet_def)
  have 2: "book_append_sheet [(''Data'', map dataRow rows)] (buildAnalytics rows) ''Analytics'' = Inr ?wb2"
    by (simp add: book_append_sheet_def)
  have f: "\<forall>fac\<in>set (factories rows). length (sheetName fac) \<le> 31 \<and> sheetName fac \<notin> fst ` set ?wb2"
    using assms(2) sheetName_not_fixed by simp
  have l: "length ?wb2 + length (factories rows) \<le> 65535" using assms(3) by simp
  note 3 = append_factory_sheets_ok[OF assms(1) f l, of rows]
  have n: "''Summary'' \<notin> fst ` set (?wb2 @ map (factorySheet rows) (factories rows))"
  proof
    assume "''Summary'' \<in> fst ` set (?wb2 @ map (factorySheet rows) (factories rows))"
    then obtain fac where "''Summary'' = sheetName fac" by (auto simp: factorySheet_def)
    then show False by (simp add: sheetName_prefix)
  qed
  have 4: "book_append_sheet (?wb2 @ map (factorySheet rows) (factories rows))
             (buildSummarySheet rows) ''Summary''
      = Inr ((?wb2 @ map (factorySheet rows) (factories rows)) @ [(''Summary'', buildSummarySheet rows)])"
    using n assms(3) by (intro book_append_sheet_ok) simp_all
  show ?thesis
    by (simp only: exportWorkbookWithAnalytics_def 1 andThen_Inr 2 3 4 append_assoc)
qed

lemmas exportEval = exportWorkbookWithAnalytics_def andThen_def book_append_sheet_def
  factories_def setValues_def orElse_def getProp_def factorySheet_def sheetName_def charEval

text \<open>
  Two labels with one sheet name, and a label whose sheet name has 32 characters: the
  library throws and no workbook is written.
\<close>

lemma export_name_taken:
  "exportWorkbookWithAnalytics [[(''Factory'', JStr ''UN-KNOWN'')], [(''Factory'', JStr [])]]
     = Inl (SheetNameTaken ''Analytics_UNKNOWN'')"
  by (simp add: exportEval)

lemma export_name_too_long:
  "exportWorkbookWithAnalytics [[(''Factory'', JStr ''Plant_0123456789_0123456'')]]
     = Inl (SheetNameTooLong ''Analytics_Plant_0123456789_0123456'')"
  by (simp add: exportEval)

text \<open>
  Claim C10 as stated fails for a dataset in which one row has an empty \<^verbatim>\<open>Factory\<close> and
  another row has the \<^verbatim>\<open>Factory\<close> \<^verbatim>\<open>UNKNOWN\<close> itself: the sheet \<^verbatim>\<open>Analytics_UNKNOWN\<close> then
  counts the second row.
\<close>

theorem unknown_sheet_with_literal_label:
  "getProp [(''Factory'', JStr [])] ''Factory'' = JStr []
   \<and> exportWorkbookWithAnalytics [[(''Factory'', JStr [])], [(''Factory'', JStr ''UNKNOWN'')]]
      = Inr [(''Data'', map dataRow [[(''Factory'', JStr [])], [(''Factory'', JStr ''UNKNOWN'')]]),
             (''Analytics'', buildAnalytics [[(''Factory'', JStr [])], [(''Factory'', JStr ''UNKNOWN'')]]),
             (''Analytics_UNKNOWN'',
              [[(''Container'', JStr ''NA''), (''TotalBoxes'', JNum 1), (''Finished'', JNum 0),
                (''Remaining'', JNum 1), (''CompletionPercent'', JStr ''0%'')],
               [(''Container'', JStr ''ALL''), (''TotalBoxes'', JNum 1), (''Finished'', JNum 0),
                (''Remaining'', JNum 1), (''CompletionPercent'', JStr ''0%'')]]),
             (''Summary'', buildSummarySheet [[(''Factory'', JStr [])], [(''Factory'', JStr ''UNKNOWN'')]])]"
proof -
  let ?rows = "[[(''Factory'', JStr [])], [(''Factory'', JStr ''UNKNOWN'')]]"
  have f: "factories ?rows = [JStr ''UNKNOWN'']"
    by (simp add: factories_def setValues_def orElse_def getProp_def)
  have "filter (\<lambda>r. getProp r ''Factory'' = JStr ''UNKNOWN'') ?rows = [[(''Factory'', JStr ''UNKNOWN'')]]"
    by (simp add: getProp_def)
  moreover have "buildAnalytics [[(''Factory'', JStr ''UNKNOWN'')]]
      = [[(''Container'', JStr ''NA''), (''TotalBoxes'', JNum 1), (''Finished'', JNum 0),
           (''Remaining'', JNum 1), (''CompletionPercent'', JStr ''0%'')],
          [(''Container'', JStr ''ALL''), (''TotalBoxes'', JNum 1), (''Finished'', JNum 0),
           (''Remaining'', JNum 1), (''CompletionPercent'', JStr ''0%'')]]"
    by (simp add: analyticsEval)
  ultimately have s: "factorySheet ?rows (JStr ''UNKNOWN'')
      = (''Analytics_UNKNOWN'',
         [[(''Container'', JStr ''NA''), (''TotalBoxes'', JNum 1), (''Finished'', JNum 0),
           (''Remaining'', JNum 1), (''CompletionPercent'', JStr ''0%'')],
          [(''Container'', JStr ''ALL''), (''TotalBoxes'', JNum 1), (''Finished'', JNum 0),
           (''Remaining'', JNum 1), (''CompletionPercent'', JStr ''0%'')]])"
    by (simp add: factorySheet_def sheetName_unknown)
  have "exportWorkbookWithAnalytics ?rows
     = Inr ([(''Data'', map dataRow ?rows), (''Analytics'', buildAnalytics ?rows)]
            @ map (factorySheet ?rows) (factories ?rows)
            @ [(''Summary'', buildSummarySheet ?rows)])"
    by (rule export_ok) (simp_all add: f sheetName_unknown)
  then show ?thesis unfolding f by (simp add: s getProp_def)
qed

text \<open>
  Claim C10, amended. Let some row have an empty or missing \<^verbatim>\<open>Factory\<close>, and let the
  library accept every sheet name: the names \<^verbatim>\<open>Analytics_\<close> plus the word characters of
  the label are different for different labels and at most 31 characters long, and there
  are at most 65532 labels. Then \<^verbatim>\<open>UNKNOWN\<close> is among the factory labels and the workbook
  handed to \<^verbatim>\<open>XLSX.writeFile\<close> holds, between the sheets \<^verbatim>\<open>Data\<close>, \<^verbatim>\<open>Analytics\<close> and \<^verbatim>\<open>Summary\<close>, one
  sheet for each label, among them \<^verbatim>\<open>Analytics_UNKNOWN\<close>; the sheet of a label is the rollup
  of the rows whose \<^verbatim>\<open>Factory\<close> is identical to the label, so the row is in the rows of no
  label's sheet; and when no row has the \<^verbatim>\<open>Factory\<close> \<^verbatim>\<open>UNKNOWN\<close> itself, the sheet
  \<^verbatim>\<open>Analytics_UNKNOWN\<close> holds the record \<^verbatim>\<open>ALL\<close> alone, with 0, 0 and \<^verbatim>\<open>0%\<close>.
\<close>

theorem unknown_factory_sheet:
  assumes "r0 \<in> set rows"
    and "getProp r0 ''Factory'' = JStr [] \<or> getProp r0 ''Factory'' = JNull
         \<or> getProp r0 ''Factory'' = JUndefined"
    and "distinct (map sheetName (factories rows))"
    and "\<forall>fac\<in>set (factories rows). length (sheetName fac) \<le> 31"
    and "length (factories rows) \<le> 65532"
  shows "JStr ''UNKNOWN'' \<in> set (factories rows)
     \<and> exportWorkbookWithAnalytics rows
         = Inr ([(''Data'', map dataRow rows), (''Analytics'', buildAnalytics rows)]
                @ map (factorySheet rows) (factories rows)
                @ [(''Summary'', buildSummarySheet rows)])
     \<and> factorySheet rows (JStr ''UNKNOWN'')
         = (''Analytics_UNKNOWN'',
            buildAnalytics (filter (\<lambda>r. getProp r ''Factory'' = JStr ''UNKNOWN'') rows))
     \<and> (\<exists>wb. exportWorkbookWithAnalytics rows = Inr wb
            \<and> (\<forall>ws. (''Analytics_UNKNOWN'', ws) \<in> set wb \<longleftrightarrow>
                   ws = buildAnalytics (filter (\<lambda>r. getProp r ''Factory'' = JStr ''UNKNOWN'') rows)))
     \<and> (\<forall>fac. factorySheet rows fac
           = (sheetName fac, buildAnalytics (filter (\<lambda>r. getProp r ''Factory'' = fac) rows)))
     \<and> (\<forall>fac\<in>set (factories rows). r0 \<notin> set (filter (\<lambda>r. getProp r ''Factory'' = fac) rows))
     \<and> ((\<forall>r\<in>set rows. getProp r ''Factory'' \<noteq> JStr ''UNKNOWN'')
          \<longrightarrow> factorySheet rows (JStr ''UNKNOWN'')
              = (''Analytics_UNKNOWN'',
                 [[(''Container'', JStr ''ALL''), (''TotalBoxes'', JNum 0), (''Finished'', JNum 0),
                   (''Remaining'', JNum 0), (''CompletionPercent'', JStr ''0%'')]]))"
proof -
  have nt: "\<not> truthy (getProp r0 ''Factory'')" using assms(2) by auto
  have 1: "JStr ''UNKNOWN'' \<in> set (factories rows)"
    using assms(1) nt by (rule factories_unknown)
  have 2: "exportWorkbookWithAnalytics rows
         = Inr ([(''Data'', map dataRow rows), (''Analytics'', buildAnalytics rows)]
                @ map (factorySheet rows) (factories rows)
                @ [(''Summary'', buildSummarySheet rows)])"
    using assms(3-5) by (rule export_ok)
  have 3: "factorySheet rows (JStr ''UNKNOWN'')
         = (''Analytics_UNKNOWN'',
            buildAnalytics (filter (\<lambda>r. getProp r ''Factory'' = JStr ''UNKNOWN'') rows))"
    by (simp add: factorySheet_def sheetName_unknown)
  have u: "\<exists>wb. exportWorkbookWithAnalytics rows = Inr wb
            \<and> (\<forall>ws. (''Analytics_UNKNOWN'', ws) \<in> set wb \<longleftrightarrow>
                   ws = buildAnalytics (filter (\<lambda>r. getProp r ''Factory'' = JStr ''UNKNOWN'') rows))"
  proof (intro exI conjI allI)
    show "exportWorkbookWithAnalytics rows
         = Inr ([(''Data'', map dataRow rows), (''Analytics'', buildAnalytics rows)]
                @ map (factorySheet rows) (factories rows)
                @ [(''Summary'', buildSummarySheet rows)])"
      by (rule 2)
    fix ws
    let ?u = "buildAnalytics (filter (\<lambda>r. getProp r ''Factory'' = JStr ''UNKNOWN'') rows)"
    have inj: "inj_on sheetName (set (factories rows))"
      using assms(3) by (simp add: distinct_map)
    have "(''Analytics_UNKNOWN'', ws) \<in> set (map (factorySheet rows) (factories rows)) \<longleftrightarrow> ws = ?u"
    proof
      assume "(''Analytics_UNKNOWN'', ws) \<in> set (map (factorySheet rows) (factories rows))"
      then obtain fac where fac: "fac \<in> set (factories rows)"
        and e: "factorySheet rows fac = (''Analytics_UNKNOWN'', ws)" by auto
      from e have se: "sheetName fac = sheetName (JStr ''UNKNOWN'')"
        by (simp add: factorySheet_def sheetName_unknown)
      have "fac = JStr ''UNKNOWN''" using inj se fac 1 by (rule inj_onD)
      with e 3 show "ws = ?u" by simp
    next
      assume "ws = ?u"
      then have "factorySheet rows (JStr ''UNKNOWN'') = (''Analytics_UNKNOWN'', ws)" using 3 by simp
      then show "(''Analytics_UNKNOWN'', ws) \<in> set (map (factorySheet rows) (factories rows))"
        using 1 by (metis image_eqI set_map)
    qed
    then show "(''Analytics_UNKNOWN'', ws)
        \<in> set ([(''Data'', map dataRow rows), (''Analytics'', buildAnalytics rows)]
                @ map (factorySheet rows) (factories rows)
                @ [(''Summary'', buildSummarySheet rows)]) \<longleftrightarrow> ws = ?u"
      by simp
  qed
  have 4: "\<forall>fac. factorySheet rows fac
           = (sheetName fac, buildAnalytics (filter (\<lambda>r. getProp r ''Factory'' = fac) rows))"
    by (simp add: factorySheet_def)
  have 5: "\<forall>fac\<in>set (factories rows). r0 \<notin> set (filter (\<lambda>r. getProp r ''Factory'' = fac) rows)"
  proof
    fix fac assume "fac \<in> set (factories rows)"
    then have "truthy fac" by (rule factories_truthy)
    with nt have "getProp r0 ''Factory'' \<noteq> fac" by auto
    then show "r0 \<notin> set (filter (\<lambda>r. getProp r ''Factory'' = fac) rows)" by simp
  qed
  have 6: "(\<forall>r\<in>set rows. getProp r ''Factory'' \<noteq> JStr ''UNKNOWN'')
          \<longrightarrow> factorySheet rows (JStr ''UNKNOWN'')
              = (''Analytics_UNKNOWN'',
                 [[(''Container'', JStr ''ALL''), (''TotalBoxes'', JNum 0), (''Finished'', JNum 0),
                   (''Remaining'', JNum 0), (''CompletionPercent'', JStr ''0%'')]])"
  proof
    assume "\<forall>r\<in>set rows. getProp r ''Factory'' \<noteq> JStr ''UNKNOWN''"
    then have "filter (\<lambda>r. getProp r ''Factory'' = JStr ''UNKNOWN'') rows = []"
      by (simp add: filter_empty_conv)
    then show "factorySheet rows (JStr ''UNKNOWN'')
              = (''Analytics_UNKNOWN'',
                 [[(''Container'', JStr ''ALL''), (''TotalBoxes'', JNum 0), (''Finished'', JNum 0),
                   (''Remaining'', JNum 0), (''CompletionPercent'', JStr ''0%'')]])"
      unfolding 3 by (simp add: example_no_rows)
  qed
  show ?thesis using 1 2 3 u 4 5 6 by (intro conjI)
qed

text \<open>A dataset with one row without a factory.\<close>

theorem unknown_factory_sheet_witness:
  "[(''Factory'', JStr []), (''REMARKS'', JStr ''Done'')]
      \<in> set [[(''Factory'', JStr []), (''REMARKS'', JStr ''Done'')], [(''Factory'', JStr ''F200'')]]
   \<and> getProp [(''Factory'', JStr []), (''REMARKS'', JStr ''Done'')] ''Factory'' = JStr []
   \<and> map sheetName
        (factories [[(''Factory'', JStr []), (''REMARKS'', JStr ''Done'')], [(''Factory'', JStr ''F200'')]])
      = [''Analytics_UNKNOWN'', ''Analytics_F200'']
   \<and> list_all (\<lambda>r. getProp r ''Factory'' \<noteq> JStr ''UNKNOWN'')
        [[(''Factory'', JStr []), (''REMARKS'', JStr ''Done'')], [(''Factory'', JStr ''F200'')]]
   \<and> exportWorkbookWithAnalytics
        [[(''Factory'', JStr []), (''REMARKS'', JStr ''Done'')], [(''Factory'', JStr ''F200'')]]
      = Inr [(''Data'', map dataRow
                [[(''Factory'', JStr []), (''REMARKS'', JStr ''Done'')], [(''Factory'', JStr ''F200'')]]),
             (''Analytics'', buildAnalytics
                [[(''Factory'', JStr []), (''REMARKS'', JStr ''Done'')], [(''Factory'', JStr ''F200'')]]),
             (''Analytics_UNKNOWN'',
              [[(''Container'', JStr ''ALL''), (''TotalBoxes'', JNum 0), (''Finished'', JNum 0),
                (''Remaining'', JNum 0), (''CompletionPercent'', JStr ''0%'')]]),
             factorySheet
                [[(''Factory'', JStr []), (''REMARKS'', JStr ''Done'')], [(''Factory'', JStr ''F200'')]]
                (JStr ''F200''),
             (''Summary'', buildSummarySheet
                [[(''Factory'', JStr []), (''REMARKS'', JStr ''Done'')], [(''Factory'', JStr ''F200'')]])]"
proof -
  let ?r0 = "[(''Factory'', JStr []), (''REMARKS'', JStr ''Done'')]"
  let ?rows = "[?r0, [(''Factory'', JStr ''F200'')]]"
  have m: "?r0 \<in> set ?rows" by simp
  have g: "getProp ?r0 ''Factory'' = JStr []" by (simp add: getProp_def)
  have f: "factories ?rows = [JStr ''UNKNOWN'', JStr ''F200'']"
    by (simp add: factories_def setValues_def orElse_def getProp_def)
  have s: "map sheetName (factories ?rows) = [''Analytics_UNKNOWN'', ''Analytics_F200'']"
    unfolding f by (simp add: sheetName_def charEval)
  have d: "distinct (map sheetName (factories ?rows))" unfolding s by simp
  have l: "\<forall>fac\<in>set (factories ?rows). length (sheetName fac) \<le> 31"
    unfolding f by (simp add: sheetName_def charEval)
  have c: "length (factories ?rows) \<le> 65532" unfolding f by simp
  have n: "\<forall>r\<in>set ?rows. getProp r ''Factory'' \<noteq> JStr ''UNKNOWN''" by (simp add: getProp_def)
  note t = unknown_factory_sheet[OF m _ d l c]
  have a: "exportWorkbookWithAnalytics ?rows
         = Inr ([(''Data'', map dataRow ?rows), (''Analytics'', buildAnalytics ?rows)]
                @ map (factorySheet ?rows) (factories ?rows)
                @ [(''Summary'', buildSummarySheet ?rows)])"
    using t g by blast
  have b: "factorySheet ?rows (JStr ''UNKNOWN'')
              = (''Analytics_UNKNOWN'',
                 [[(''Container'', JStr ''ALL''), (''TotalBoxes'', JNum 0), (''Finished'', JNum 0),
                   (''Remaining'', JNum 0), (''CompletionPercent'', JStr ''0%'')]])"
    using t g n by blast
  have e: "exportWorkbookWithAnalytics ?rows
      = Inr [(''Data'', map dataRow ?rows), (''Analytics'', buildAnalytics ?rows),
             (''Analytics_UNKNOWN'',
              [[(''Container'', JStr ''ALL''), (''TotalBoxes'', JNum 0), (''Finished'', JNum 0),
                (''Remaining'', JNum 0), (''CompletionPercent'', JStr ''0%'')]]),
             factorySheet ?rows (JStr ''F200''),
             (''Summary'', buildSummarySheet ?rows)]"
    unfolding a f by (simp only: list.map b append.simps)
  have w: "list_all (\<lambda>r. getProp r ''Factory'' \<noteq> JStr ''UNKNOWN'') ?rows"
    using n unfolding list_all_iff .
  show ?thesis using m g s w e by (intro conjI)
qed

end
